theory Spec2Isabelle
  imports Main "HOL-Library.Word"
begin

section \<open>JavaScript strings\<close>

text \<open>
  A JavaScript string is a sequence of UTF-16 code units. Identifiers are only compared
  for equality and tested for emptiness (\<^verbatim>\<open>!id\<close>); \<^verbatim>\<open>trim\<close>, \<^verbatim>\<open>split\<close> and \<^verbatim>\<open>join\<close>
  look at the code units themselves.
\<close>

type_synonym jsstring = "16 word list"

definition js :: "string \<Rightarrow> jsstring" where
  \<comment> \<open>an ASCII literal as a JavaScript string\<close>
  "js s = map of_char s"

section \<open>Data model\<close>

text \<open>
  Modelled from the spec: the types \<^verbatim>\<open>Session\<close>, \<^verbatim>\<open>Message\<close>, \<^verbatim>\<open>Part\<close> and
  \<^verbatim>\<open>PermissionRequest\<close> are imported from the package \<^verbatim>\<open>@opencode-ai/sdk/v2/client\<close>,
  whose declarations are not part of the repository. The records below carry the fields
  the repository's code reads (\<^verbatim>\<open>id\<close>, \<^verbatim>\<open>sessionID\<close>, \<^verbatim>\<open>messageID\<close>, \<^verbatim>\<open>role\<close>,
  \<^verbatim>\<open>model\<close>) and the remaining fields the data model of the specification lists.
\<close>

record Session =
  session_id :: jsstring
  title :: jsstring
  slug :: jsstring
  updatedAt :: int

record ModelRef =
  providerID :: jsstring
  modelID :: jsstring

datatype role = User | Assistant

text \<open>
  Values that the code receives as \<^verbatim>\<open>unknown\<close> or reads through \<^verbatim>\<open>any\<close> are JSON
  values. An object is the list of its key/value pairs, read with \<open>map_of\<close>; a
  property that is not there reads as \<^verbatim>\<open>undefined\<close>, modelled by \<open>None\<close>. Numbers
  are only tested for truthiness, so integers stand for them.
\<close>

datatype json =
  JNull
| JBool bool
| JNum int
| JStr jsstring
| JArr "json list"
| JObj "(jsstring \<times> json) list"

fun truthy :: "json \<Rightarrow> bool" where
  "truthy JNull = False"
| "truthy (JBool b) = b"
| "truthy (JNum n) = (n \<noteq> 0)"
| "truthy (JStr s) = (s \<noteq> [])"
| "truthy (JArr _) = True"
| "truthy (JObj _) = True"

fun typeof_object :: "json \<Rightarrow> bool" where
  \<comment> \<open>\<^verbatim>\<open>typeof v === "object"\<close>: true of \<^verbatim>\<open>null\<close>, arrays and objects\<close>
  "typeof_object JNull = True"
| "typeof_object (JArr _) = True"
| "typeof_object (JObj _) = True"
| "typeof_object _ = False"

fun get_prop :: "json \<Rightarrow> jsstring \<Rightarrow> json option" where
  \<comment> \<open>\<^verbatim>\<open>v.key\<close> for the keys the code reads; an array has none of them\<close>
  "get_prop (JObj kvs) k = map_of kvs k"
| "get_prop _ k = None"

record Message =
  msg_id :: jsstring
  msg_sessionID :: jsstring
  msg_role :: role
  msg_model :: "json option"

record Part =
  part_id :: jsstring
  part_messageID :: jsstring
  part_sessionID :: jsstring
  part_type :: jsstring
  part_text :: jsstring

record MessageWithParts =
  info :: Message
  parts :: "Part list"

section \<open>Store primitives\<close>

text \<open>\<^verbatim>\<open>Array.prototype.findIndex\<close>: the first index whose element satisfies the
  predicate; \<open>None\<close> stands for the result \<^verbatim>\<open>-1\<close>.\<close>

fun findIndex :: "('a \<Rightarrow> bool) \<Rightarrow> 'a list \<Rightarrow> nat option" where
  "findIndex P [] = None"
| "findIndex P (x # xs) = (if P x then Some 0 else map_option Suc (findIndex P xs))"

definition upsertSession :: "Session list \<Rightarrow> Session \<Rightarrow> Session list" where
  "upsertSession list next =
     (case findIndex (\<lambda>s. session_id s = session_id next) list of
        None \<Rightarrow> list @ [next]
      | Some idx \<Rightarrow> list[idx := next])"

definition upsertMessage :: "MessageWithParts list \<Rightarrow> Message \<Rightarrow> MessageWithParts list" where
  "upsertMessage list nextInfo =
     (case findIndex (\<lambda>m. msg_id (info m) = msg_id nextInfo) list of
        None \<Rightarrow> list @ [\<lparr>info = nextInfo, parts = []\<rparr>]
      | Some idx \<Rightarrow> list[idx := (list ! idx)\<lparr>info := nextInfo\<rparr>])"

definition upsertPart :: "MessageWithParts list \<Rightarrow> Part \<Rightarrow> MessageWithParts list" where
  "upsertPart list nextPart =
     (case findIndex (\<lambda>m. msg_id (info m) = part_messageID nextPart) list of
        None \<Rightarrow> list
      | Some msgIdx \<Rightarrow>
          (let msg = list ! msgIdx;
               ps = parts msg;
               ps' = (case findIndex (\<lambda>p. part_id p = part_id nextPart) ps of
                        None \<Rightarrow> ps @ [nextPart]
                      | Some partIdx \<Rightarrow> ps[partIdx := nextPart])
           in list[msgIdx := msg\<lparr>parts := ps'\<rparr>]))"

definition removePart :: "MessageWithParts list \<Rightarrow> jsstring \<Rightarrow> jsstring \<Rightarrow> MessageWithParts list" where
  "removePart list messageID partID =
     (case findIndex (\<lambda>m. msg_id (info m) = messageID) list of
        None \<Rightarrow> list
      | Some msgIdx \<Rightarrow>
          (let msg = list ! msgIdx
           in list[msgIdx := msg\<lparr>parts := filter (\<lambda>p. part_id p \<noteq> partID) (parts msg)\<rparr>]))"

section \<open>Model references\<close>

definition slash :: "16 word" where
  "slash = 0x2F"

definition isWhiteSpace :: "16 word \<Rightarrow> bool" where
  \<comment> \<open>the code units \<^verbatim>\<open>String.prototype.trim\<close> strips: WhiteSpace and LineTerminator\<close>
  "isWhiteSpace c \<longleftrightarrow>
     c = 0x09 \<or> c = 0x0A \<or> c = 0x0B \<or> c = 0x0C \<or> c = 0x0D \<or> c = 0x20 \<or> c = 0xA0 \<or>
     c = 0x1680 \<or> (0x2000 \<le> c \<and> c \<le> 0x200A) \<or> c = 0x2028 \<or> c = 0x2029 \<or>
     c = 0x202F \<or> c = 0x205F \<or> c = 0x3000 \<or> c = 0xFEFF"

definition js_trim :: "jsstring \<Rightarrow> jsstring" where
  "js_trim s = rev (dropWhile isWhiteSpace (rev (dropWhile isWhiteSpace s)))"

fun js_split :: "jsstring \<Rightarrow> 16 word \<Rightarrow> jsstring list" where
  \<comment> \<open>\<^verbatim>\<open>s.split(sep)\<close> for a separator of one code unit; the result is never empty\<close>
  "js_split [] sep = [] # []"
| "js_split (c # cs) sep =
     (if c = sep then [] # js_split cs sep
      else (case js_split cs sep of [] \<Rightarrow> [c] # [] | w # ws \<Rightarrow> (c # w) # ws))"

fun js_join :: "jsstring list \<Rightarrow> 16 word \<Rightarrow> jsstring" where
  "js_join [] sep = []"
| "js_join [x] sep = x"
| "js_join (x # y # ys) sep = x @ sep # js_join (y # ys) sep"

definition DEFAULT_MODEL :: ModelRef where
  "DEFAULT_MODEL = \<lparr>providerID = js ''opencode'', modelID = js ''gpt-5-nano''\<rparr>"

definition formatModelRef :: "ModelRef \<Rightarrow> jsstring" where
  "formatModelRef model = providerID model @ slash # modelID model"

definition parseModelRef :: "jsstring option \<Rightarrow> ModelRef option" where
  "parseModelRef raw =
     (case raw of
        None \<Rightarrow> None
      | Some r \<Rightarrow>
          if r = [] then None
          else let trimmed = js_trim r in
            if trimmed = [] then None
            else (case js_split trimmed slash of
                    [] \<Rightarrow> None
                  | provider # rest \<Rightarrow>
                      if provider = [] \<or> rest = [] then None
                      else Some \<lparr>providerID = provider, modelID = js_join rest slash\<rparr>))"

definition loadDefaultModel :: "jsstring option \<Rightarrow> ModelRef" where
  \<comment> \<open>the start-up code in \<^verbatim>\<open>onMount\<close>: the stored preference if it parses, else the built-in\<close>
  "loadDefaultModel stored =
     (case parseModelRef stored of Some parsed \<Rightarrow> parsed | None \<Rightarrow> DEFAULT_MODEL)"

text \<open>The first guard of \<^verbatim>\<open>modelFromUserMessage\<close>, \<^verbatim>\<open>!info || typeof info !== "object"\<close>,
  never fires on the \<^verbatim>\<open>info\<close> of a list entry, which is a record.\<close>

definition modelFromUserMessage :: "Message \<Rightarrow> ModelRef option" where
  "modelFromUserMessage i =
     (if msg_role i \<noteq> User then None
      else case msg_model i of
        None \<Rightarrow> None
      | Some model \<Rightarrow>
          if \<not> truthy model \<or> \<not> typeof_object model then None
          else (case (get_prop model (js ''providerID''), get_prop model (js ''modelID'')) of
                  (Some (JStr p), Some (JStr m)) \<Rightarrow> Some \<lparr>providerID = p, modelID = m\<rparr>
                | _ \<Rightarrow> None))"

text \<open>The backward scan \<^verbatim>\<open>for (let i = list.length - 1; i >= 0; i -= 1)\<close>: the second
  argument is \<open>i + 1\<close>.\<close>

fun lastUserModel_from :: "MessageWithParts list \<Rightarrow> nat \<Rightarrow> ModelRef option" where
  "lastUserModel_from list 0 = None"
| "lastUserModel_from list (Suc i) =
     (case modelFromUserMessage (info (list ! i)) of
        Some model \<Rightarrow> Some model
      | None \<Rightarrow> lastUserModel_from list i)"

definition lastUserModelFromMessages :: "MessageWithParts list \<Rightarrow> ModelRef option" where
  "lastUserModelFromMessages list = lastUserModel_from list (length list)"

section \<open>Pending permissions\<close>

record PermissionRequest =
  perm_id :: jsstring
  perm_sessionID :: jsstring
  permission :: jsstring
  patterns :: "jsstring list"
  metadata :: json

record PendingPermission = PermissionRequest +
  receivedAt :: int

definition withReceivedAt :: "PermissionRequest \<Rightarrow> int \<Rightarrow> PendingPermission" where
  \<comment> \<open>\<^verbatim>\<open>{ ...p, receivedAt: t }\<close>\<close>
  "withReceivedAt p t =
     \<lparr>perm_id = perm_id p, perm_sessionID = perm_sessionID p, permission = permission p,
      patterns = patterns p, metadata = metadata p, receivedAt = t\<rparr>"

definition permissionsById :: "PendingPermission list \<Rightarrow> (jsstring \<rightharpoonup> PendingPermission)" where
  \<comment> \<open>\<^verbatim>\<open>new Map(current.map((p) => [p.id, p]))\<close>: a later entry overwrites an earlier one\<close>
  "permissionsById current = foldl (\<lambda>m p. m(perm_id p \<mapsto> p)) Map.empty current"

definition reconcilePermissions ::
  "PendingPermission list \<Rightarrow> PermissionRequest list \<Rightarrow> int \<Rightarrow> PendingPermission list" where
  \<comment> \<open>the updater passed to \<^verbatim>\<open>setPendingPermissions\<close> in \<^verbatim>\<open>refreshPendingPermissions\<close>\<close>
  "reconcilePermissions current list now =
     (let byId = permissionsById current
      in map (\<lambda>p. withReceivedAt p
                (case byId (perm_id p) of Some q \<Rightarrow> receivedAt q | None \<Rightarrow> now)) list)"

section \<open>The application state\<close>

text \<open>
  The signals of \<^verbatim>\<open>App\<close> that the modelled functions read or write. Signals that only
  drive the presentation (view, tab, busy indicator, modal state) are left out. A server
  call either yields its data or fails; \<open>Inl\<close> carries the message of the failure.

  The two \<^verbatim>\<open>Record<string, ModelRef>\<close> signals start as \<^verbatim>\<open>{}\<close> and are only replaced by
  a spread copy with one computed key set or one key deleted. Each is an ordinary
  object: the map of its own properties, with \<^verbatim>\<open>Object.prototype\<close> behind it. Reading
  \<^verbatim>\<open>record[id]\<close> gives the own property of that name; else, when \<^verbatim>\<open>Object.prototype\<close> has
  a member of that name, that member; else \<^verbatim>\<open>undefined\<close>. Every such member is truthy
  (a function, or for \<^verbatim>\<open>__proto__\<close> the prototype itself), and none is a model
  reference. So what the code reads, returns and stores as a model is a \<open>model_value\<close>.
\<close>

datatype model_value = Model ModelRef | Inherited jsstring

definition objectPrototypeMembers :: "jsstring list" where
  "objectPrototypeMembers =
     [js ''constructor'', js ''__defineGetter__'', js ''__defineSetter__'',
      js ''hasOwnProperty'', js ''__lookupGetter__'', js ''__lookupSetter__'',
      js ''isPrototypeOf'', js ''propertyIsEnumerable'', js ''toString'', js ''valueOf'',
      js ''__proto__'', js ''toLocaleString'']"

definition record_get :: "(jsstring \<rightharpoonup> model_value) \<Rightarrow> jsstring \<Rightarrow> model_value option" where
  \<comment> \<open>\<^verbatim>\<open>record[id]\<close>, with \<open>None\<close> for \<^verbatim>\<open>undefined\<close>\<close>
  "record_get record k =
     (case record k of
        Some v \<Rightarrow> Some v
      | None \<Rightarrow> if k \<in> set objectPrototypeMembers then Some (Inherited k) else None)"

datatype Client = Client jsstring

record TodoItem =
  todo_id :: jsstring
  todo_content :: jsstring
  todo_status :: jsstring
  todo_priority :: jsstring

record store =
  client :: "Client option"
  sessions :: "Session list"
  selectedSessionId :: "jsstring option"
  messages :: "MessageWithParts list"
  todos :: "TodoItem list"
  pendingPermissions :: "PendingPermission list"
  prompt :: jsstring
  defaultModel :: ModelRef
  sessionModelOverrideById :: "jsstring \<rightharpoonup> model_value"
  sessionModelById :: "jsstring \<rightharpoonup> model_value"
  error :: "jsstring option"

type_synonym 'a reply = "jsstring + 'a"

definition selectedSessionModel :: "store \<Rightarrow> model_value" where
  "selectedSessionModel st =
     (case selectedSessionId st of
        None \<Rightarrow> Model (defaultModel st)
      | Some sid \<Rightarrow>
          if sid = [] then Model (defaultModel st)
          else (case record_get (sessionModelOverrideById st) sid of
                  Some override \<Rightarrow> override
                | None \<Rightarrow>
                    (case record_get (sessionModelById st) sid of
                       Some known \<Rightarrow> known
                     | None \<Rightarrow>
                         (case lastUserModelFromMessages (messages st) of
                            Some fromMessages \<Rightarrow> Model fromMessages
                          | None \<Rightarrow> Model (defaultModel st)))))"

definition rememberSessionModel :: "jsstring \<Rightarrow> model_value \<Rightarrow> store \<Rightarrow> store" where
  \<comment> \<open>the two setters that follow a prompt send and a history fetch: the model becomes the
      session's known model and the session's override is deleted (the second setter
      returns the record as it is when \<^verbatim>\<open>current[sessionID]\<close> is falsy, and a copy without
      the own property otherwise: the same own properties either way)\<close>
  "rememberSessionModel sessionID model st =
     st\<lparr>sessionModelById := (sessionModelById st)(sessionID \<mapsto> model),
        sessionModelOverrideById := (sessionModelOverrideById st)(sessionID := None)\<rparr>"

definition refreshPendingPermissions ::
  "PermissionRequest list reply \<Rightarrow> int \<Rightarrow> store \<Rightarrow> jsstring + store" where
  \<comment> \<open>the continuation of \<^verbatim>\<open>refreshPendingPermissions\<close> once \<^verbatim>\<open>permission.list\<close> has settled,
      at clock reading \<open>now\<close>; \<open>Inl\<close> is the error it throws\<close>
  "refreshPendingPermissions r now st =
     (case r of
        Inl e \<Rightarrow> Inl e
      | Inr list \<Rightarrow>
          Inr (st\<lparr>pendingPermissions := reconcilePermissions (pendingPermissions st) list now\<rparr>))"

subsection \<open>Switching the session\<close>

text \<open>
  \<^verbatim>\<open>selectSession\<close> is an async function: it runs up to an \<^verbatim>\<open>await\<close>, and the rest runs
  when the awaited call settles, whatever has happened to the signals in between. Each
  stretch between two awaits is one function of the state. \<open>pending\<close> names the call a
  suspended \<^verbatim>\<open>selectSession(sessionID)\<close> is waiting for.
\<close>

datatype pending =
  AwaitMessages jsstring
| AwaitTodo jsstring
| AwaitPermissions jsstring

fun pending_session :: "pending \<Rightarrow> jsstring" where
  \<comment> \<open>the \<^verbatim>\<open>sessionID\<close> argument of the suspended call\<close>
  "pending_session (AwaitMessages sessionID) = sessionID"
| "pending_session (AwaitTodo sessionID) = sessionID"
| "pending_session (AwaitPermissions sessionID) = sessionID"

datatype settled =
  MessagesSettled "MessageWithParts list reply"
| TodoSettled "TodoItem list reply"
| PermissionsSettled "PermissionRequest list reply" int

definition selectSession_start :: "jsstring \<Rightarrow> store \<Rightarrow> store \<times> pending option" where
  "selectSession_start sessionID st =
     (case client st of
        None \<Rightarrow> (st, None)
      | Some c \<Rightarrow>
          (st\<lparr>selectedSessionId := Some sessionID, error := None\<rparr>, Some (AwaitMessages sessionID)))"

definition selectSession_messages ::
  "jsstring \<Rightarrow> MessageWithParts list reply \<Rightarrow> store \<Rightarrow> store \<times> pending option" where
  \<comment> \<open>a failed history fetch makes \<^verbatim>\<open>selectSession\<close> throw: nothing more is written\<close>
  "selectSession_messages sessionID r st =
     (case r of
        Inl e \<Rightarrow> (st, None)
      | Inr msgs \<Rightarrow>
          (let st1 = st\<lparr>messages := msgs\<rparr>;
               st2 = (case lastUserModelFromMessages msgs of
                        None \<Rightarrow> st1
                      | Some model \<Rightarrow> rememberSessionModel sessionID (Model model) st1)
           in (st2, Some (AwaitTodo sessionID))))"

definition selectSession_todo ::
  "jsstring \<Rightarrow> TodoItem list reply \<Rightarrow> store \<Rightarrow> store \<times> pending option" where
  "selectSession_todo sessionID r st =
     (st\<lparr>todos := (case r of Inl e \<Rightarrow> [] | Inr ts \<Rightarrow> ts)\<rparr>, Some (AwaitPermissions sessionID))"

definition selectSession_permissions ::
  "PermissionRequest list reply \<Rightarrow> int \<Rightarrow> store \<Rightarrow> store \<times> pending option" where
  "selectSession_permissions r now st =
     (case refreshPendingPermissions r now st of Inl e \<Rightarrow> (st, None) | Inr st' \<Rightarrow> (st', None))"

fun resume :: "pending \<Rightarrow> settled \<Rightarrow> store \<Rightarrow> store \<times> pending option" where
  "resume (AwaitMessages sessionID) (MessagesSettled r) st = selectSession_messages sessionID r st"
| "resume (AwaitTodo sessionID) (TodoSettled r) st = selectSession_todo sessionID r st"
| "resume (AwaitPermissions sessionID) (PermissionsSettled r now) st =
     selectSession_permissions r now st"
| "resume p s st = (st, Some p)"

text \<open>
  The event loop of the page: the user selects a session, or the \<open>k\<close>-th call in flight
  settles and its \<^verbatim>\<open>selectSession\<close> runs on to the next \<^verbatim>\<open>await\<close>.
\<close>

datatype action = SelectSession jsstring | Settle nat settled

fun step :: "store \<times> pending list \<Rightarrow> action \<Rightarrow> store \<times> pending list" where
  "step (st, inflight) (SelectSession sessionID) =
     (case selectSession_start sessionID st of
        (st', None) \<Rightarrow> (st', inflight)
      | (st', Some p) \<Rightarrow> (st', inflight @ [p]))"
| "step (st, inflight) (Settle k s) =
     (if k < length inflight then
        (case resume (inflight ! k) s st of
           (st', None) \<Rightarrow> (st', take k inflight @ drop (Suc k) inflight)
         | (st', Some p) \<Rightarrow> (st', inflight[k := p]))
      else (st, inflight))"

definition run :: "store \<times> pending list \<Rightarrow> action list \<Rightarrow> store \<times> pending list" where
  "run = foldl step"

subsection \<open>Sending a prompt\<close>

text \<open>
  \<^verbatim>\<open>sendPrompt\<close> in stretches, as \<^verbatim>\<open>selectSession\<close> above. The copy in the application
  also records the text in a signal \<^verbatim>\<open>lastPromptSent\<close> that nothing modelled here reads.
\<close>

record PromptRequest =
  req_sessionID :: jsstring
  req_model :: model_value
  req_text :: jsstring

definition sendPrompt_start :: "store \<Rightarrow> store \<times> PromptRequest option" where
  \<comment> \<open>up to \<^verbatim>\<open>await c.session.prompt(...)\<close>; \<open>None\<close> when the function returns at once\<close>
  "sendPrompt_start st =
     (case (client st, selectedSessionId st) of
        (Some c, Some sessionID) \<Rightarrow>
          if sessionID = [] then (st, None)
          else let content = js_trim (prompt st) in
            if content = [] then (st, None)
            else let st1 = st\<lparr>error := None, prompt := []\<rparr>;
                     model = selectedSessionModel st1
                 in (st1, Some \<lparr>req_sessionID = sessionID, req_model = model, req_text = content\<rparr>)
      | _ \<Rightarrow> (st, None))"

record PromptReplies =
  prompt_reply :: "unit reply"
  messages_reply :: "MessageWithParts list reply"
  todo_reply :: "TodoItem list reply"
  sessions_reply :: "Session list reply"

definition sendPrompt_sent :: "PromptRequest \<Rightarrow> store \<Rightarrow> store" where
  \<comment> \<open>the stretch that runs when the prompt call has succeeded, up to the history fetch\<close>
  "sendPrompt_sent req st = rememberSessionModel (req_sessionID req) (req_model req) st"

definition sendPrompt_settled :: "PromptRequest \<Rightarrow> PromptReplies \<Rightarrow> store \<Rightarrow> store" where
  \<comment> \<open>everything after the prompt call has settled, with no other code running in between\<close>
  "sendPrompt_settled req rs st =
     (case prompt_reply rs of
        Inl e \<Rightarrow> st\<lparr>error := Some e\<rparr>
      | Inr u \<Rightarrow>
          (let st1 = sendPrompt_sent req st in
           case messages_reply rs of
             Inl e \<Rightarrow> st1\<lparr>error := Some e\<rparr>
           | Inr msgs \<Rightarrow>
               (let st2 = st1\<lparr>messages := msgs\<rparr>;
                    st3 = st2\<lparr>todos := (case todo_reply rs of Inl e \<Rightarrow> [] | Inr ts \<Rightarrow> ts)\<rparr>
                in case sessions_reply rs of
                     Inl e \<Rightarrow> st3\<lparr>error := Some e\<rparr>
                   | Inr list \<Rightarrow> st3\<lparr>sessions := list\<rparr>)))"

definition sendPrompt :: "PromptReplies \<Rightarrow> store \<Rightarrow> store" where
  "sendPrompt rs st =
     (case sendPrompt_start st of
        (st', None) \<Rightarrow> st'
      | (st', Some req) \<Rightarrow> sendPrompt_settled req rs st')"

section \<open>The health probe\<close>

text \<open>
  A value that rejects the health call, as the \<^verbatim>\<open>catch\<close> of the probe tells the cases
  apart: an \<^verbatim>\<open>Error\<close> with its name and message, or some other value, given by its
  \<^verbatim>\<open>String(e)\<close>.
\<close>

datatype js_exn = ErrorObj jsstring jsstring | NonError jsstring

datatype 'a outcome = Resolves 'a | Rejects js_exn

text \<open>The \<^verbatim>\<open>error\<close> of a \<^verbatim>\<open>FieldsResult\<close>, as \<^verbatim>\<open>unwrap\<close> tells the cases apart: an \<^verbatim>\<open>Error\<close>
  with its message, a string, or another value with the result of \<^verbatim>\<open>JSON.stringify\<close>
  (which is \<^verbatim>\<open>undefined\<close> for some values).\<close>

datatype api_error = ErrorInstance jsstring | ErrorString jsstring | ErrorOther "jsstring option"

datatype 'a FieldsResult = Data 'a | Error api_error

definition unwrap :: "'a FieldsResult \<Rightarrow> jsstring + 'a" where
  \<comment> \<open>\<open>Inl\<close> is the message of the \<^verbatim>\<open>Error\<close> that \<^verbatim>\<open>unwrap\<close> throws\<close>
  "unwrap result =
     (case result of
        Data d \<Rightarrow> Inr d
      | Error e \<Rightarrow>
          (let message = (case e of
                            ErrorInstance m \<Rightarrow> Some m
                          | ErrorString s \<Rightarrow> Some s
                          | ErrorOther t \<Rightarrow> t)
           in Inl (case message of
                     None \<Rightarrow> js ''Unknown error''
                   | Some m \<Rightarrow> if m = [] then js ''Unknown error'' else m)))"

text \<open>Modelled from the spec: the payload of \<^verbatim>\<open>global.health\<close> is declared in the SDK;
  the code reads \<^verbatim>\<open>healthy\<close> and \<^verbatim>\<open>version\<close>.\<close>

record Health =
  healthy :: bool
  version :: jsstring

record WaitOptions =
  timeoutMs :: "int option"
  pollMs :: "int option"

text \<open>
  One round of the polling loop as the environment determines it: how the health call
  settles, the milliseconds the call takes, and the milliseconds by which the timer
  that follows fires late. The clock is read at the head of each round.
\<close>

record Poll =
  health_call :: "Health FieldsResult outcome"
  call_ms :: nat
  late_ms :: nat

datatype attempt = Healthy Health | Failure jsstring

definition attempt_of :: "Poll \<Rightarrow> attempt" where
  \<comment> \<open>the body of the \<^verbatim>\<open>try\<close> and its \<^verbatim>\<open>catch\<close>: the payload, or the new \<^verbatim>\<open>lastError\<close>\<close>
  "attempt_of p =
     (case health_call p of
        Rejects (ErrorObj n m) \<Rightarrow> Failure m
      | Rejects (NonError s) \<Rightarrow> Failure (js ''Unknown error'')
      | Resolves result \<Rightarrow>
          (case unwrap result of
             Inl m \<Rightarrow> Failure m
           | Inr health \<Rightarrow>
               if healthy health then Healthy health
               else Failure (js ''Server reported unhealthy'')))"

definition round_ms :: "int \<Rightarrow> Poll \<Rightarrow> int" where
  \<comment> \<open>the time one round takes: the call, the timer of \<^verbatim>\<open>pollMs\<close>, its lateness\<close>
  "round_ms poll p = int (call_ms p) + max 0 poll + int (late_ms p)"

text \<open>
  The loop \<^verbatim>\<open>while (Date.now() - start < timeoutMs)\<close>; \<open>t\<close> is \<^verbatim>\<open>Date.now() - start\<close>.
  The result is \<open>None\<close> when the rounds given are used up while the loop is still
  polling, \<open>Some (Inr health)\<close> when it returns, \<open>Some (Inl m)\<close> when it throws
  \<^verbatim>\<open>new Error(m)\<close>.
\<close>

fun wait_loop ::
  "int \<Rightarrow> int \<Rightarrow> int \<Rightarrow> jsstring option \<Rightarrow> Poll list \<Rightarrow> (jsstring + Health) option" where
  "wait_loop timeout poll t lastError [] =
     (if t < timeout then None
      else Some (Inl (case lastError of
                        None \<Rightarrow> js ''Timed out waiting for server health''
                      | Some m \<Rightarrow> m)))"
| "wait_loop timeout poll t lastError (p # ps) =
     (if t < timeout then
        (case attempt_of p of
           Healthy health \<Rightarrow> Some (Inr health)
         | Failure m \<Rightarrow> wait_loop timeout poll (t + round_ms poll p) (Some m) ps)
      else Some (Inl (case lastError of
                        None \<Rightarrow> js ''Timed out waiting for server health''
                      | Some m \<Rightarrow> m)))"

definition timeoutMs_of :: "WaitOptions option \<Rightarrow> int" where
  \<comment> \<open>\<^verbatim>\<open>options?.timeoutMs ?? 10_000\<close>\<close>
  "timeoutMs_of options =
     (case options of
        None \<Rightarrow> 10000
      | Some opts \<Rightarrow> (case timeoutMs opts of None \<Rightarrow> 10000 | Some n \<Rightarrow> n))"

definition pollMs_of :: "WaitOptions option \<Rightarrow> int" where
  \<comment> \<open>\<^verbatim>\<open>options?.pollMs ?? 250\<close>\<close>
  "pollMs_of options =
     (case options of
        None \<Rightarrow> 250
      | Some opts \<Rightarrow> (case pollMs opts of None \<Rightarrow> 250 | Some n \<Rightarrow> n))"

definition waitForHealthy :: "WaitOptions option \<Rightarrow> Poll list \<Rightarrow> (jsstring + Health) option" where
  "waitForHealthy options ps = wait_loop (timeoutMs_of options) (pollMs_of options) 0 None ps"

section \<open>The event subscription\<close>

record OpencodeEvent =
  ev_type :: jsstring
  ev_properties :: "json option"


text \<open>
  The signals the subscription itself writes, and the remaining application state
  \<open>appState\<close>, which only the dispatch on the event type writes. The dispatch is a
  parameter \<open>handle\<close> acting on \<open>appState\<close> (which may hold the replies of the calls
  it awaits):
  no branch of it writes \<^verbatim>\<open>sseConnected\<close>, \<^verbatim>\<open>events\<close> or \<^verbatim>\<open>error\<close>. The field
  \<open>sse_error\<close> is the signal \<^verbatim>\<open>error\<close>.
\<close>

record 's live =
  sseConnected :: bool
  events :: "OpencodeEvent list"
  developerMode :: bool
  sse_error :: "jsstring option"
  appState :: 's

definition js_startsWith :: "jsstring \<Rightarrow> jsstring \<Rightarrow> bool" where
  "js_startsWith s p \<longleftrightarrow> take (length p) s = p"

fun js_includes :: "jsstring \<Rightarrow> jsstring \<Rightarrow> bool" where
  "js_includes [] t = (t = [])"
| "js_includes (c # cs) t = (js_startsWith (c # cs) t \<or> js_includes cs t)"


text \<open>
  A value that the subscribe call, a read or the stream throws, as the two \<^verbatim>\<open>catch\<close>
  blocks tell the cases apart: an \<^verbatim>\<open>Error\<close> with its name and message; \<^verbatim>\<open>null\<close>;
  \<^verbatim>\<open>undefined\<close>; any other value, with its \<^verbatim>\<open>name\<close> property when that is a string and
  with its \<^verbatim>\<open>String(e)\<close>.
\<close>

datatype thrown =
  ThrownError jsstring jsstring
| ThrownNull
| ThrownUndefined
| ThrownOther "jsstring option" jsstring

definition exn_message :: "thrown \<Rightarrow> jsstring" where
  \<comment> \<open>\<^verbatim>\<open>e instanceof Error ? e.message : String(e)\<close>\<close>
  "exn_message e =
     (case e of
        ThrownError n m \<Rightarrow> m
      | ThrownNull \<Rightarrow> js ''null''
      | ThrownUndefined \<Rightarrow> js ''undefined''
      | ThrownOther n s \<Rightarrow> s)"

subsection \<open>The extension: reading the byte stream\<close>









subsection \<open>The application: iterating the event stream\<close>


definition app_catch :: "(jsstring \<Rightarrow> jsstring) \<Rightarrow> bool \<Rightarrow> thrown \<Rightarrow> 's live \<Rightarrow> 's live" where
  "app_catch lower cancelled e st =
     (if cancelled then st
      else let message = exn_message e in
        if js_includes (lower message) (js ''abort'') then st
        else st\<lparr>sse_error := Some message\<rparr>)"




section \<open>Auxiliary notions of the proofs\<close>

text \<open>The time stamp an id is owed after a refresh at \<open>now\<close>: the one the list held
  before has for it (the last entry, should the id occur more than once), else \<open>now\<close>.\<close>

definition firstSeen :: "PendingPermission list \<Rightarrow> int \<Rightarrow> jsstring \<Rightarrow> int" where
  "firstSeen current now k =
     (if k \<in> perm_id ` set current
      then receivedAt (last (filter (\<lambda>q. perm_id q = k) current)) else now)"

section \<open>Facts about \<open>findIndex\<close>\<close>

lemma findIndex_None_iff: "findIndex P xs = None \<longleftrightarrow> (\<forall>x \<in> set xs. \<not> P x)"
  by (induction xs) auto

lemma findIndex_Some_less: "findIndex P xs = Some i \<Longrightarrow> i < length xs"
  by (induction xs arbitrary: i) (auto split: if_splits)

lemma findIndex_Some_sat: "findIndex P xs = Some i \<Longrightarrow> P (xs ! i)"
  by (induction xs arbitrary: i) (auto split: if_splits)

lemma findIndex_Some_first: "findIndex P xs = Some i \<Longrightarrow> j < i \<Longrightarrow> \<not> P (xs ! j)"
proof (induction xs arbitrary: i j)
  case Nil
  then show ?case by simp
next
  case (Cons x xs)
  then show ?case by (cases j) (auto split: if_splits)
qed

lemma findIndex_find:
  "findIndex P xs = Some i \<Longrightarrow> find P xs = Some (xs ! i)"
  by (induction xs arbitrary: i) (auto split: if_splits)

section \<open>Sessions: the last event for an id wins\<close>

lemma upsertSession_Nil: "upsertSession [] n = [n]"
  by (simp add: upsertSession_def)

lemma upsertSession_Cons:
  "upsertSession (x # xs) n =
     (if session_id x = session_id n then n # xs else x # upsertSession xs n)"
  by (simp add: upsertSession_def split: option.splits)

lemma find_upsertSession_same:
  "find (\<lambda>s. session_id s = session_id n) (upsertSession l n) = Some n"
  by (induction l) (simp_all add: upsertSession_Nil upsertSession_Cons)

lemma find_upsertSession_other:
  "i \<noteq> session_id n \<Longrightarrow>
   find (\<lambda>s. session_id s = i) (upsertSession l n) = find (\<lambda>s. session_id s = i) l"
  by (induction l) (simp_all add: upsertSession_Nil upsertSession_Cons)

lemma nth_upsertSession_other:
  "j < length l \<Longrightarrow> session_id (l ! j) \<noteq> session_id n \<Longrightarrow> upsertSession l n ! j = l ! j"
proof (induction l arbitrary: j)
  case Nil
  then show ?case by simp
next
  case (Cons x xs)
  then show ?case by (cases j) (auto simp: upsertSession_Cons)
qed

lemma map_id_upsertSession:
  "map session_id (upsertSession l n) =
     map session_id l @ (if session_id n \<in> session_id ` set l then [] else [session_id n])"
  by (induction l) (auto simp: upsertSession_Nil upsertSession_Cons)

lemma upsertSession_fresh:
  "session_id n \<notin> session_id ` set l \<Longrightarrow> upsertSession l n = l @ [n]"
  by (induction l) (auto simp: upsertSession_Nil upsertSession_Cons)

lemma length_upsertSession: "length l \<le> length (upsertSession l n)"
  using arg_cong [OF map_id_upsertSession, of length l n] by (simp split: if_splits)

lemma distinct_upsertSession:
  "distinct (map session_id l) \<Longrightarrow> distinct (map session_id (upsertSession l n))"
  by (auto simp: map_id_upsertSession)

lemma foldl_upsertSession_find:
  "e \<in> set evs \<Longrightarrow>
   find (\<lambda>s. session_id s = session_id e) (foldl upsertSession l evs) =
     Some (last (filter (\<lambda>e'. session_id e' = session_id e) evs))"
proof (induction evs rule: rev_induct)
  case Nil
  then show ?case by simp
next
  case (snoc x evs)
  show ?case
  proof (cases "session_id x = session_id e")
    case True
    then show ?thesis using find_upsertSession_same [of x "foldl upsertSession l evs"] by simp
  next
    case False
    with snoc.prems have "e \<in> set evs" by auto
    with snoc.IH False show ?thesis
      by (simp add: find_upsertSession_other)
  qed
qed

lemma foldl_upsertSession_length: "length l \<le> length (foldl upsertSession l evs)"
proof (induction evs rule: rev_induct)
  case Nil
  then show ?case by simp
next
  case (snoc x evs)
  then show ?case using length_upsertSession [of "foldl upsertSession l evs" x] by simp
qed

lemma foldl_upsertSession_ids:
  "j < length l \<Longrightarrow> session_id (foldl upsertSession l evs ! j) = session_id (l ! j)"
proof (induction evs rule: rev_induct)
  case Nil
  then show ?case by simp
next
  case (snoc x evs)
  let ?r = "foldl upsertSession l evs"
  have j: "j < length ?r" using snoc.prems foldl_upsertSession_length [of l evs] by simp
  have "session_id (upsertSession ?r x ! j) = map session_id (upsertSession ?r x) ! j"
    using j length_upsertSession [of ?r x] by simp
  also have "\<dots> = map session_id ?r ! j"
    using j by (simp add: map_id_upsertSession nth_append)
  also have "\<dots> = session_id (l ! j)" using j snoc by simp
  finally show ?case by simp
qed

lemma foldl_upsertSession_untouched:
  "j < length l \<Longrightarrow> session_id (l ! j) \<notin> session_id ` set evs \<Longrightarrow>
   foldl upsertSession l evs ! j = l ! j"
proof (induction evs rule: rev_induct)
  case Nil
  then show ?case by simp
next
  case (snoc x evs)
  let ?r = "foldl upsertSession l evs"
  have j: "j < length ?r" using snoc.prems foldl_upsertSession_length [of l evs] by simp
  have ih: "?r ! j = l ! j" using snoc by simp
  have "session_id (?r ! j) \<noteq> session_id x" using ih snoc.prems by auto
  then show ?case using j ih by (simp add: nth_upsertSession_other)
qed

lemma foldl_upsertSession_distinct:
  "distinct (map session_id l) \<Longrightarrow> distinct (map session_id (foldl upsertSession l evs))"
  by (induction evs rule: rev_induct) (simp_all add: distinct_upsertSession)

text \<open>
  Claim C2. Starting from any session list and applying \<open>upsertSession\<close> for any finite
  sequence of payloads: the entry found for the id of a payload is the last payload of
  the sequence with that id; an entry of the starting list whose id no payload carries
  is unchanged, at its position; every position of the starting list keeps its id, so
  the order of the entries that were there is never changed; a payload with a new id is
  appended at the end; and ids that were unique stay unique.
\<close>

theorem upsertSession_last_payload_wins:
  "(\<forall>e \<in> set evs.
      find (\<lambda>s. session_id s = session_id e) (foldl upsertSession list evs) =
        Some (last (filter (\<lambda>e'. session_id e' = session_id e) evs))) \<and>
   (\<forall>j < length list.
      j < length (foldl upsertSession list evs) \<and>
      session_id (foldl upsertSession list evs ! j) = session_id (list ! j) \<and>
      (session_id (list ! j) \<notin> session_id ` set evs \<longrightarrow>
         foldl upsertSession list evs ! j = list ! j)) \<and>
   (session_id next \<notin> session_id ` set list \<longrightarrow> upsertSession list next = list @ [next]) \<and>
   (distinct (map session_id list) \<longrightarrow> distinct (map session_id (foldl upsertSession list evs)))"
proof (intro conjI ballI allI impI)
  fix e assume "e \<in> set evs"
  then show "find (\<lambda>s. session_id s = session_id e) (foldl upsertSession list evs) =
      Some (last (filter (\<lambda>e'. session_id e' = session_id e) evs))"
    by (rule foldl_upsertSession_find)
next
  fix j assume "j < length list"
  then show "j < length (foldl upsertSession list evs)"
    using foldl_upsertSession_length [of list evs] by simp
next
  fix j assume "j < length list"
  then show "session_id (foldl upsertSession list evs ! j) = session_id (list ! j)"
    by (rule foldl_upsertSession_ids)
next
  fix j assume "j < length list" "session_id (list ! j) \<notin> session_id ` set evs"
  then show "foldl upsertSession list evs ! j = list ! j"
    by (rule foldl_upsertSession_untouched)
next
  assume "session_id next \<notin> session_id ` set list"
  then show "upsertSession list next = list @ [next]"
    by (rule upsertSession_fresh)
next
  assume "distinct (map session_id list)"
  then show "distinct (map session_id (foldl upsertSession list evs))"
    by (rule foldl_upsertSession_distinct)
qed

theorem upsertSession_last_payload_wins_witness:
  "find (\<lambda>s. session_id s = js ''s2'')
     (foldl upsertSession
        [\<lparr>session_id = js ''s1'', title = js ''one'', slug = js ''a'', updatedAt = 1\<rparr>,
         \<lparr>session_id = js ''s2'', title = js ''two'', slug = js ''b'', updatedAt = 2\<rparr>]
        [\<lparr>session_id = js ''s2'', title = js ''two-b'', slug = js ''b'', updatedAt = 3\<rparr>,
         \<lparr>session_id = js ''s3'', title = js ''three'', slug = js ''c'', updatedAt = 4\<rparr>,
         \<lparr>session_id = js ''s2'', title = js ''two-c'', slug = js ''b'', updatedAt = 5\<rparr>])
     = Some \<lparr>session_id = js ''s2'', title = js ''two-c'', slug = js ''b'', updatedAt = 5\<rparr> \<and>
   foldl upsertSession
        [\<lparr>session_id = js ''s1'', title = js ''one'', slug = js ''a'', updatedAt = 1\<rparr>,
         \<lparr>session_id = js ''s2'', title = js ''two'', slug = js ''b'', updatedAt = 2\<rparr>]
        [\<lparr>session_id = js ''s2'', title = js ''two-b'', slug = js ''b'', updatedAt = 3\<rparr>,
         \<lparr>session_id = js ''s3'', title = js ''three'', slug = js ''c'', updatedAt = 4\<rparr>,
         \<lparr>session_id = js ''s2'', title = js ''two-c'', slug = js ''b'', updatedAt = 5\<rparr>] ! 0
     = \<lparr>session_id = js ''s1'', title = js ''one'', slug = js ''a'', updatedAt = 1\<rparr> \<and>
   upsertSession
        [\<lparr>session_id = js ''s1'', title = js ''one'', slug = js ''a'', updatedAt = 1\<rparr>,
         \<lparr>session_id = js ''s2'', title = js ''two'', slug = js ''b'', updatedAt = 2\<rparr>]
        \<lparr>session_id = js ''s3'', title = js ''three'', slug = js ''c'', updatedAt = 4\<rparr>
     = [\<lparr>session_id = js ''s1'', title = js ''one'', slug = js ''a'', updatedAt = 1\<rparr>,
        \<lparr>session_id = js ''s2'', title = js ''two'', slug = js ''b'', updatedAt = 2\<rparr>,
        \<lparr>session_id = js ''s3'', title = js ''three'', slug = js ''c'', updatedAt = 4\<rparr>]"
  using upsertSession_last_payload_wins
    [of "[\<lparr>session_id = js ''s2'', title = js ''two-b'', slug = js ''b'', updatedAt = 3\<rparr>,
          \<lparr>session_id = js ''s3'', title = js ''three'', slug = js ''c'', updatedAt = 4\<rparr>,
          \<lparr>session_id = js ''s2'', title = js ''two-c'', slug = js ''b'', updatedAt = 5\<rparr>]"
        "[\<lparr>session_id = js ''s1'', title = js ''one'', slug = js ''a'', updatedAt = 1\<rparr>,
          \<lparr>session_id = js ''s2'', title = js ''two'', slug = js ''b'', updatedAt = 2\<rparr>]"
        "\<lparr>session_id = js ''s3'', title = js ''three'', slug = js ''c'', updatedAt = 4\<rparr>"]
  by (simp add: js_def upsertSession_def)

section \<open>Messages and their parts\<close>

lemma upsertMessage_Nil: "upsertMessage [] i = [\<lparr>info = i, parts = []\<rparr>]"
  by (simp add: upsertMessage_def)

lemma upsertMessage_Cons:
  "upsertMessage (x # xs) i =
     (if msg_id (info x) = msg_id i then x\<lparr>info := i\<rparr> # xs else x # upsertMessage xs i)"
  by (simp add: upsertMessage_def split: option.splits)

lemma upsertMessage_absent:
  "\<forall>m \<in> set l. msg_id (info m) \<noteq> msg_id i \<Longrightarrow>
   upsertMessage l i = l @ [\<lparr>info = i, parts = []\<rparr>]"
  by (induction l) (simp_all add: upsertMessage_Nil upsertMessage_Cons)

lemma findIndex_present:
  "\<exists>x \<in> set xs. P x \<Longrightarrow>
   \<exists>k < length xs. findIndex P xs = Some k \<and> P (xs ! k) \<and> (\<forall>j < k. \<not> P (xs ! j))"
proof -
  assume "\<exists>x \<in> set xs. P x"
  then have "findIndex P xs \<noteq> None" by (simp add: findIndex_None_iff)
  then obtain k where k: "findIndex P xs = Some k" by auto
  then show ?thesis
    using findIndex_Some_less [OF k] findIndex_Some_sat [OF k] findIndex_Some_first [OF k]
    by blast
qed

lemma update_info_eq: "m\<lparr>info := i\<rparr> = \<lparr>info = i, parts = parts m\<rparr>"
  by (cases m) simp

lemma upsertMessage_found:
  "findIndex (\<lambda>m. msg_id (info m) = msg_id i) l = Some k \<Longrightarrow>
   upsertMessage l i = l[k := \<lparr>info = i, parts = parts (l ! k)\<rparr>]"
  by (simp add: upsertMessage_def update_info_eq)

lemma length_upsertMessage: "length l \<le> length (upsertMessage l i)"
  by (simp add: upsertMessage_def split: option.splits)

lemma upsertMessage_parts:
  "j < length l \<Longrightarrow> parts (upsertMessage l i ! j) = parts (l ! j)"
  by (auto simp: upsertMessage_def nth_append nth_list_update
      split: option.splits dest: findIndex_Some_less)

lemma upsertMessage_other:
  "j < length l \<Longrightarrow> msg_id (info (l ! j)) \<noteq> msg_id i \<Longrightarrow> upsertMessage l i ! j = l ! j"
proof (cases "findIndex (\<lambda>m. msg_id (info m) = msg_id i) l")
  case None
  assume "j < length l"
  with None show ?thesis by (simp add: upsertMessage_def nth_append)
next
  case (Some k)
  assume "msg_id (info (l ! j)) \<noteq> msg_id i"
  with findIndex_Some_sat [OF Some] have "k \<noteq> j" by auto
  with Some show ?thesis by (simp add: upsertMessage_def)
qed

text \<open>
  Claim C8. For every message collection and every message info: if no entry has the
  id of the info, \<open>upsertMessage\<close> appends an entry with that info and no parts; if some
  entry has it, the first such entry gets the new info and keeps its parts, and nothing
  else in the collection changes. In both cases every entry of the collection keeps its
  parts, and every entry with another id is unchanged.
\<close>

theorem upsertMessage_replaces_info_only:
  "((\<forall>m \<in> set list. msg_id (info m) \<noteq> msg_id nextInfo) \<longrightarrow>
      upsertMessage list nextInfo = list @ [\<lparr>info = nextInfo, parts = []\<rparr>]) \<and>
   ((\<exists>m \<in> set list. msg_id (info m) = msg_id nextInfo) \<longrightarrow>
      (\<exists>idx < length list.
         msg_id (info (list ! idx)) = msg_id nextInfo \<and>
         (\<forall>j < idx. msg_id (info (list ! j)) \<noteq> msg_id nextInfo) \<and>
         upsertMessage list nextInfo =
           list[idx := \<lparr>info = nextInfo, parts = parts (list ! idx)\<rparr>])) \<and>
   (\<forall>j < length list.
      parts (upsertMessage list nextInfo ! j) = parts (list ! j) \<and>
      (msg_id (info (list ! j)) \<noteq> msg_id nextInfo \<longrightarrow> upsertMessage list nextInfo ! j = list ! j))"
proof (intro conjI impI allI)
  assume "\<forall>m \<in> set list. msg_id (info m) \<noteq> msg_id nextInfo"
  then show "upsertMessage list nextInfo = list @ [\<lparr>info = nextInfo, parts = []\<rparr>]"
    by (rule upsertMessage_absent)
next
  assume "\<exists>m \<in> set list. msg_id (info m) = msg_id nextInfo"
  from findIndex_present [of list "\<lambda>m. msg_id (info m) = msg_id nextInfo", OF this]
  obtain k where k: "k < length list"
      "findIndex (\<lambda>m. msg_id (info m) = msg_id nextInfo) list = Some k"
      "msg_id (info (list ! k)) = msg_id nextInfo"
      "\<forall>j < k. msg_id (info (list ! j)) \<noteq> msg_id nextInfo"
    by blast
  show "\<exists>idx < length list.
         msg_id (info (list ! idx)) = msg_id nextInfo \<and>
         (\<forall>j < idx. msg_id (info (list ! j)) \<noteq> msg_id nextInfo) \<and>
         upsertMessage list nextInfo =
           list[idx := \<lparr>info = nextInfo, parts = parts (list ! idx)\<rparr>]"
    using k upsertMessage_found [OF k(2)] by blast
next
  fix j assume "j < length list"
  then show "parts (upsertMessage list nextInfo ! j) = parts (list ! j)"
    by (rule upsertMessage_parts)
next
  fix j assume "j < length list" "msg_id (info (list ! j)) \<noteq> msg_id nextInfo"
  then show "upsertMessage list nextInfo ! j = list ! j"
    by (rule upsertMessage_other)
qed

theorem upsertMessage_replaces_info_only_witness:
  "(let m1 = \<lparr>msg_id = js ''m1'', msg_sessionID = js ''s1'', msg_role = User, msg_model = None\<rparr>;
        m1' = \<lparr>msg_id = js ''m1'', msg_sessionID = js ''s1'', msg_role = Assistant, msg_model = None\<rparr>;
        m2 = \<lparr>msg_id = js ''m2'', msg_sessionID = js ''s1'', msg_role = Assistant, msg_model = None\<rparr>;
        p1 = \<lparr>part_id = js ''p1'', part_messageID = js ''m1'', part_sessionID = js ''s1'',
              part_type = js ''text'', part_text = js ''hi''\<rparr>
    in upsertMessage [\<lparr>info = m1, parts = [p1]\<rparr>, \<lparr>info = m2, parts = []\<rparr>] m1'
         = [\<lparr>info = m1', parts = [p1]\<rparr>, \<lparr>info = m2, parts = []\<rparr>] \<and>
       upsertMessage [\<lparr>info = m1, parts = [p1]\<rparr>] m2
         = [\<lparr>info = m1, parts = [p1]\<rparr>, \<lparr>info = m2, parts = []\<rparr>])"
  using upsertMessage_replaces_info_only
    [of "[\<lparr>info = \<lparr>msg_id = js ''m1'', msg_sessionID = js ''s1'', msg_role = User, msg_model = None\<rparr>,
           parts = [\<lparr>part_id = js ''p1'', part_messageID = js ''m1'', part_sessionID = js ''s1'',
                     part_type = js ''text'', part_text = js ''hi''\<rparr>]\<rparr>]"
        "\<lparr>msg_id = js ''m2'', msg_sessionID = js ''s1'', msg_role = Assistant, msg_model = None\<rparr>"]
    upsertMessage_replaces_info_only
    [of "[\<lparr>info = \<lparr>msg_id = js ''m1'', msg_sessionID = js ''s1'', msg_role = User, msg_model = None\<rparr>,
           parts = [\<lparr>part_id = js ''p1'', part_messageID = js ''m1'', part_sessionID = js ''s1'',
                     part_type = js ''text'', part_text = js ''hi''\<rparr>]\<rparr>,
          \<lparr>info = \<lparr>msg_id = js ''m2'', msg_sessionID = js ''s1'', msg_role = Assistant,
                    msg_model = None\<rparr>, parts = []\<rparr>]"
        "\<lparr>msg_id = js ''m1'', msg_sessionID = js ''s1'', msg_role = Assistant, msg_model = None\<rparr>"]
  by (simp add: js_def upsertMessage_def Let_def)

lemma update_parts_eq: "m\<lparr>parts := ps\<rparr> = \<lparr>info = info m, parts = ps\<rparr>"
  by (cases m) simp

lemma upsertPart_Cons:
  "upsertPart (x # xs) p =
     (if msg_id (info x) = part_messageID p
      then x\<lparr>parts := (case findIndex (\<lambda>q. part_id q = part_id p) (parts x) of
                          None \<Rightarrow> parts x @ [p]
                        | Some n \<Rightarrow> (parts x)[n := p])\<rparr> # xs
      else x # upsertPart xs p)"
  by (simp add: upsertPart_def Let_def split: option.splits)

lemma upsertPart_absent:
  "\<forall>m \<in> set l. msg_id (info m) \<noteq> part_messageID p \<Longrightarrow> upsertPart l p = l"
  by (simp add: upsertPart_def findIndex_None_iff [THEN iffD2])

lemma upsertPart_after_fresh_message:
  "\<forall>m \<in> set l. msg_id (info m) \<noteq> msg_id i \<Longrightarrow> part_messageID p = msg_id i \<Longrightarrow>
   upsertPart (l @ [\<lparr>info = i, parts = []\<rparr>]) p = l @ [\<lparr>info = i, parts = [p]\<rparr>]"
  by (induction l) (simp_all add: upsertPart_Cons update_parts_eq)

lemma upsertPart_found_new:
  "findIndex (\<lambda>m. msg_id (info m) = part_messageID p) l = Some k \<Longrightarrow>
   \<forall>q \<in> set (parts (l ! k)). part_id q \<noteq> part_id p \<Longrightarrow>
   upsertPart l p = l[k := \<lparr>info = info (l ! k), parts = parts (l ! k) @ [p]\<rparr>]"
  by (simp add: upsertPart_def Let_def update_parts_eq findIndex_None_iff [THEN iffD2])

lemma upsertPart_found_old:
  "findIndex (\<lambda>m. msg_id (info m) = part_messageID p) l = Some k \<Longrightarrow>
   findIndex (\<lambda>q. part_id q = part_id p) (parts (l ! k)) = Some n \<Longrightarrow>
   upsertPart l p = l[k := \<lparr>info = info (l ! k), parts = (parts (l ! k))[n := p]\<rparr>]"
  by (simp add: upsertPart_def Let_def update_parts_eq)

text \<open>
  Claim C3. For every message collection and every part: when no message has the id
  the part names as its \<open>messageID\<close>, \<open>upsertPart\<close> returns the collection as it is. When
  that id is fresh, \<open>upsertMessage\<close> for it followed by \<open>upsertPart\<close> (also after a
  first \<open>upsertPart\<close> that came too early) gives the collection with one more entry, the
  message with exactly that part. When a message with the id is there, the first such
  message gets the part: appended if none of its parts has the part's id, else in the
  place of the first part with that id; nothing else changes.
\<close>

theorem upsertPart_tolerates_missing_message:
  "((\<forall>m \<in> set list. msg_id (info m) \<noteq> part_messageID p) \<longrightarrow> upsertPart list p = list) \<and>
   ((\<forall>m \<in> set list. msg_id (info m) \<noteq> msg_id i) \<and> part_messageID p = msg_id i \<longrightarrow>
      upsertPart (upsertMessage list i) p = list @ [\<lparr>info = i, parts = [p]\<rparr>] \<and>
      upsertPart (upsertMessage (upsertPart list p) i) p = list @ [\<lparr>info = i, parts = [p]\<rparr>]) \<and>
   ((\<exists>m \<in> set list. msg_id (info m) = part_messageID p) \<longrightarrow>
      (\<exists>k < length list.
         msg_id (info (list ! k)) = part_messageID p \<and>
         (\<forall>j < k. msg_id (info (list ! j)) \<noteq> part_messageID p) \<and>
         ((\<forall>q \<in> set (parts (list ! k)). part_id q \<noteq> part_id p) \<longrightarrow>
            upsertPart list p =
              list[k := \<lparr>info = info (list ! k), parts = parts (list ! k) @ [p]\<rparr>]) \<and>
         ((\<exists>q \<in> set (parts (list ! k)). part_id q = part_id p) \<longrightarrow>
            (\<exists>n < length (parts (list ! k)).
               part_id (parts (list ! k) ! n) = part_id p \<and>
               (\<forall>j < n. part_id (parts (list ! k) ! j) \<noteq> part_id p) \<and>
               upsertPart list p =
                 list[k := \<lparr>info = info (list ! k), parts = (parts (list ! k))[n := p]\<rparr>]))))"
proof (intro conjI impI)
  assume "\<forall>m \<in> set list. msg_id (info m) \<noteq> part_messageID p"
  then show "upsertPart list p = list" by (rule upsertPart_absent)
next
  assume h: "(\<forall>m \<in> set list. msg_id (info m) \<noteq> msg_id i) \<and> part_messageID p = msg_id i"
  then show "upsertPart (upsertMessage list i) p = list @ [\<lparr>info = i, parts = [p]\<rparr>]"
    by (simp add: upsertMessage_absent upsertPart_after_fresh_message)
next
  assume h: "(\<forall>m \<in> set list. msg_id (info m) \<noteq> msg_id i) \<and> part_messageID p = msg_id i"
  then have "upsertPart list p = list" by (simp add: upsertPart_absent)
  with h show "upsertPart (upsertMessage (upsertPart list p) i) p =
      list @ [\<lparr>info = i, parts = [p]\<rparr>]"
    by (simp add: upsertMessage_absent upsertPart_after_fresh_message)
next
  assume "\<exists>m \<in> set list. msg_id (info m) = part_messageID p"
  from findIndex_present [of list "\<lambda>m. msg_id (info m) = part_messageID p", OF this]
  obtain k where k: "k < length list"
      "findIndex (\<lambda>m. msg_id (info m) = part_messageID p) list = Some k"
      "msg_id (info (list ! k)) = part_messageID p"
      "\<forall>j < k. msg_id (info (list ! j)) \<noteq> part_messageID p"
    by blast
  have new: "(\<forall>q \<in> set (parts (list ! k)). part_id q \<noteq> part_id p) \<longrightarrow>
      upsertPart list p = list[k := \<lparr>info = info (list ! k), parts = parts (list ! k) @ [p]\<rparr>]"
    using upsertPart_found_new [OF k(2)] by blast
  have old: "(\<exists>q \<in> set (parts (list ! k)). part_id q = part_id p) \<longrightarrow>
      (\<exists>n < length (parts (list ! k)).
         part_id (parts (list ! k) ! n) = part_id p \<and>
         (\<forall>j < n. part_id (parts (list ! k) ! j) \<noteq> part_id p) \<and>
         upsertPart list p =
           list[k := \<lparr>info = info (list ! k), parts = (parts (list ! k))[n := p]\<rparr>])"
  proof
    assume "\<exists>q \<in> set (parts (list ! k)). part_id q = part_id p"
    from findIndex_present [of "parts (list ! k)" "\<lambda>q. part_id q = part_id p", OF this]
    obtain n where n: "n < length (parts (list ! k))"
        "findIndex (\<lambda>q. part_id q = part_id p) (parts (list ! k)) = Some n"
        "part_id (parts (list ! k) ! n) = part_id p"
        "\<forall>j < n. part_id (parts (list ! k) ! j) \<noteq> part_id p"
      by blast
    show "\<exists>n < length (parts (list ! k)).
         part_id (parts (list ! k) ! n) = part_id p \<and>
         (\<forall>j < n. part_id (parts (list ! k) ! j) \<noteq> part_id p) \<and>
         upsertPart list p =
           list[k := \<lparr>info = info (list ! k), parts = (parts (list ! k))[n := p]\<rparr>]"
      using n upsertPart_found_old [OF k(2) n(2)] by blast
  qed
  show "\<exists>k < length list.
         msg_id (info (list ! k)) = part_messageID p \<and>
         (\<forall>j < k. msg_id (info (list ! j)) \<noteq> part_messageID p) \<and>
         ((\<forall>q \<in> set (parts (list ! k)). part_id q \<noteq> part_id p) \<longrightarrow>
            upsertPart list p =
              list[k := \<lparr>info = info (list ! k), parts = parts (list ! k) @ [p]\<rparr>]) \<and>
         ((\<exists>q \<in> set (parts (list ! k)). part_id q = part_id p) \<longrightarrow>
            (\<exists>n < length (parts (list ! k)).
               part_id (parts (list ! k) ! n) = part_id p \<and>
               (\<forall>j < n. part_id (parts (list ! k) ! j) \<noteq> part_id p) \<and>
               upsertPart list p =
                 list[k := \<lparr>info = info (list ! k), parts = (parts (list ! k))[n := p]\<rparr>]))"
    using k(1,3,4) new old by blast
qed

theorem upsertPart_tolerates_missing_message_witness:
  "(let m1 = \<lparr>msg_id = js ''m1'', msg_sessionID = js ''s1'', msg_role = User, msg_model = None\<rparr>;
        m2 = \<lparr>msg_id = js ''m2'', msg_sessionID = js ''s1'', msg_role = Assistant, msg_model = None\<rparr>;
        p1 = \<lparr>part_id = js ''p1'', part_messageID = js ''m1'', part_sessionID = js ''s1'',
              part_type = js ''text'', part_text = js ''hi''\<rparr>;
        p1' = \<lparr>part_id = js ''p1'', part_messageID = js ''m1'', part_sessionID = js ''s1'',
               part_type = js ''text'', part_text = js ''hi there''\<rparr>;
        p2 = \<lparr>part_id = js ''p2'', part_messageID = js ''m1'', part_sessionID = js ''s1'',
              part_type = js ''tool'', part_text = []\<rparr>
    in upsertPart [\<lparr>info = m2, parts = []\<rparr>] p1 = [\<lparr>info = m2, parts = []\<rparr>] \<and>
       upsertPart (upsertMessage [\<lparr>info = m2, parts = []\<rparr>] m1) p1
         = [\<lparr>info = m2, parts = []\<rparr>, \<lparr>info = m1, parts = [p1]\<rparr>] \<and>
       upsertPart (upsertMessage (upsertPart [\<lparr>info = m2, parts = []\<rparr>] p1) m1) p1
         = [\<lparr>info = m2, parts = []\<rparr>, \<lparr>info = m1, parts = [p1]\<rparr>] \<and>
       upsertPart [\<lparr>info = m1, parts = [p1, p2]\<rparr>] p1' = [\<lparr>info = m1, parts = [p1', p2]\<rparr>] \<and>
       upsertPart [\<lparr>info = m1, parts = [p1]\<rparr>] p2 = [\<lparr>info = m1, parts = [p1, p2]\<rparr>])"
  using upsertPart_tolerates_missing_message
    [of "[\<lparr>info = \<lparr>msg_id = js ''m2'', msg_sessionID = js ''s1'', msg_role = Assistant,
                    msg_model = None\<rparr>, parts = []\<rparr>]"
        "\<lparr>part_id = js ''p1'', part_messageID = js ''m1'', part_sessionID = js ''s1'',
          part_type = js ''text'', part_text = js ''hi''\<rparr>"
        "\<lparr>msg_id = js ''m1'', msg_sessionID = js ''s1'', msg_role = User, msg_model = None\<rparr>"]
    upsertPart_tolerates_missing_message
    [of "[\<lparr>info = \<lparr>msg_id = js ''m1'', msg_sessionID = js ''s1'', msg_role = User,
                    msg_model = None\<rparr>,
           parts = [\<lparr>part_id = js ''p1'', part_messageID = js ''m1'', part_sessionID = js ''s1'',
                     part_type = js ''text'', part_text = js ''hi''\<rparr>,
                    \<lparr>part_id = js ''p2'', part_messageID = js ''m1'', part_sessionID = js ''s1'',
                     part_type = js ''tool'', part_text = []\<rparr>]\<rparr>]"
        "\<lparr>part_id = js ''p1'', part_messageID = js ''m1'', part_sessionID = js ''s1'',
          part_type = js ''text'', part_text = js ''hi there''\<rparr>"
        "\<lparr>msg_id = js ''m9'', msg_sessionID = js ''s1'', msg_role = User, msg_model = None\<rparr>"]
    upsertPart_tolerates_missing_message
    [of "[\<lparr>info = \<lparr>msg_id = js ''m1'', msg_sessionID = js ''s1'', msg_role = User,
                    msg_model = None\<rparr>,
           parts = [\<lparr>part_id = js ''p1'', part_messageID = js ''m1'', part_sessionID = js ''s1'',
                     part_type = js ''text'', part_text = js ''hi''\<rparr>]\<rparr>]"
        "\<lparr>part_id = js ''p2'', part_messageID = js ''m1'', part_sessionID = js ''s1'',
          part_type = js ''tool'', part_text = []\<rparr>"
        "\<lparr>msg_id = js ''m9'', msg_sessionID = js ''s1'', msg_role = User, msg_model = None\<rparr>"]
  by (simp add: js_def Let_def upsertPart_def upsertMessage_def)

lemma removePart_Nil: "removePart [] m p = []"
  by (simp add: removePart_def)

lemma removePart_Cons:
  "removePart (x # xs) m p =
     (if msg_id (info x) = m
      then x\<lparr>parts := filter (\<lambda>q. part_id q \<noteq> p) (parts x)\<rparr> # xs
      else x # removePart xs m p)"
  by (simp add: removePart_def Let_def split: option.splits)

lemma removePart_idem: "removePart (removePart l m p) m p = removePart l m p"
  by (induction l) (simp_all add: removePart_Nil removePart_Cons)

lemma removePart_no_message:
  "\<forall>x \<in> set l. msg_id (info x) \<noteq> m \<Longrightarrow> removePart l m p = l"
  by (induction l) (simp_all add: removePart_Nil removePart_Cons)

lemma removePart_no_part:
  "find (\<lambda>x. msg_id (info x) = m) l = Some msg \<Longrightarrow>
   \<forall>q \<in> set (parts msg). part_id q \<noteq> p \<Longrightarrow> removePart l m p = l"
  by (induction l) (auto simp: removePart_Nil removePart_Cons)

lemma removePart_found:
  "findIndex (\<lambda>x. msg_id (info x) = m) l = Some k \<Longrightarrow>
   removePart l m p =
     l[k := \<lparr>info = info (l ! k), parts = filter (\<lambda>q. part_id q \<noteq> p) (parts (l ! k))\<rparr>]"
  by (simp add: removePart_def Let_def update_parts_eq)

text \<open>
  Claim C7. \<open>removePart\<close> is idempotent, and it returns the collection as it is when no
  message has the given id, or when the message it would edit (the first with that id)
  has no part with the given part id. The function is total: there is no error case.
  When it does edit, the first message with the id loses the parts with the part id,
  and nothing else changes.
\<close>

theorem removePart_idempotent:
  "removePart (removePart list messageID partID) messageID partID =
     removePart list messageID partID \<and>
   ((\<forall>x \<in> set list. msg_id (info x) \<noteq> messageID) \<longrightarrow> removePart list messageID partID = list) \<and>
   (\<forall>msg. find (\<lambda>x. msg_id (info x) = messageID) list = Some msg \<and>
          (\<forall>q \<in> set (parts msg). part_id q \<noteq> partID) \<longrightarrow>
          removePart list messageID partID = list) \<and>
   (\<forall>k. findIndex (\<lambda>x. msg_id (info x) = messageID) list = Some k \<longrightarrow>
        removePart list messageID partID =
          list[k := \<lparr>info = info (list ! k),
                     parts = filter (\<lambda>q. part_id q \<noteq> partID) (parts (list ! k))\<rparr>])"
  using removePart_idem [of list messageID partID]
    removePart_no_message [of list messageID partID]
    removePart_no_part [of messageID list _ partID]
    removePart_found [of messageID list _ partID]
  by blast

theorem removePart_idempotent_witness:
  "(let m1 = \<lparr>msg_id = js ''m1'', msg_sessionID = js ''s1'', msg_role = User, msg_model = None\<rparr>;
        p1 = \<lparr>part_id = js ''p1'', part_messageID = js ''m1'', part_sessionID = js ''s1'',
              part_type = js ''text'', part_text = js ''hi''\<rparr>;
        p2 = \<lparr>part_id = js ''p2'', part_messageID = js ''m1'', part_sessionID = js ''s1'',
              part_type = js ''text'', part_text = js ''there''\<rparr>
    in removePart [\<lparr>info = m1, parts = [p1, p2]\<rparr>] (js ''m1'') (js ''p1'')
         = [\<lparr>info = m1, parts = [p2]\<rparr>] \<and>
       removePart (removePart [\<lparr>info = m1, parts = [p1, p2]\<rparr>] (js ''m1'') (js ''p1''))
           (js ''m1'') (js ''p1'')
         = [\<lparr>info = m1, parts = [p2]\<rparr>] \<and>
       removePart [\<lparr>info = m1, parts = [p1, p2]\<rparr>] (js ''m9'') (js ''p1'')
         = [\<lparr>info = m1, parts = [p1, p2]\<rparr>] \<and>
       removePart [\<lparr>info = m1, parts = [p1, p2]\<rparr>] (js ''m1'') (js ''p9'')
         = [\<lparr>info = m1, parts = [p1, p2]\<rparr>])"
proof -
  let ?list = "[\<lparr>info = \<lparr>msg_id = js ''m1'', msg_sessionID = js ''s1'', msg_role = User,
                        msg_model = None\<rparr>,
                parts = [\<lparr>part_id = js ''p1'', part_messageID = js ''m1'',
                          part_sessionID = js ''s1'', part_type = js ''text'',
                          part_text = js ''hi''\<rparr>,
                         \<lparr>part_id = js ''p2'', part_messageID = js ''m1'',
                          part_sessionID = js ''s1'', part_type = js ''text'',
                          part_text = js ''there''\<rparr>]\<rparr>]"
  show ?thesis
    using removePart_idempotent [of ?list "js ''m1''" "js ''p1''"]
      removePart_idempotent [of ?list "js ''m9''" "js ''p1''"]
      removePart_idempotent [of ?list "js ''m1''" "js ''p9''"]
    by (simp add: js_def Let_def removePart_def)
qed

section \<open>Reconciling the pending permissions\<close>

lemma permissionsById_snoc:
  "permissionsById (cur @ [q]) = (permissionsById cur)(perm_id q \<mapsto> q)"
  by (simp add: permissionsById_def)

lemma permissionsById_None: "permissionsById cur k = None \<longleftrightarrow> k \<notin> perm_id ` set cur"
  by (induction cur rule: rev_induct) (auto simp: permissionsById_snoc permissionsById_def)

lemma permissionsById_Some:
  "k \<in> perm_id ` set cur \<Longrightarrow>
   permissionsById cur k = Some (last (filter (\<lambda>q. perm_id q = k) cur))"
proof (induction cur rule: rev_induct)
  case Nil
  then show ?case by simp
next
  case (snoc q cur)
  show ?case
  proof (cases "perm_id q = k")
    case True
    then show ?thesis by (simp add: permissionsById_snoc)
  next
    case False
    with snoc.prems have "k \<in> perm_id ` set cur" by auto
    with snoc.IH False show ?thesis by (simp add: permissionsById_snoc)
  qed
qed

lemma truncate_withReceivedAt: "PermissionRequest.truncate (withReceivedAt p t) = p"
  by (cases p) (simp add: withReceivedAt_def PermissionRequest.truncate_def)

lemma receivedAt_withReceivedAt: "receivedAt (withReceivedAt p t) = t"
  by (simp add: withReceivedAt_def)

lemma perm_id_withReceivedAt: "perm_id (withReceivedAt p t) = perm_id p"
  by (simp add: withReceivedAt_def)

lemma reconcilePermissions_eq:
  "reconcilePermissions current list now =
     map (\<lambda>p. withReceivedAt p (firstSeen current now (perm_id p))) list"
proof -
  have "(case permissionsById current k of Some q \<Rightarrow> receivedAt q | None \<Rightarrow> now) =
      firstSeen current now k" for k
  proof (cases "k \<in> perm_id ` set current")
    case True
    then show ?thesis by (simp add: permissionsById_Some firstSeen_def)
  next
    case False
    then have "permissionsById current k = None" by (simp add: permissionsById_None)
    with False show ?thesis by (simp add: firstSeen_def)
  qed
  then show ?thesis by (simp add: reconcilePermissions_def)
qed

lemma reconcilePermissions_same_id:
  "q \<in> set (reconcilePermissions current list now) \<Longrightarrow>
   receivedAt q = firstSeen current now (perm_id q)"
  by (auto simp: reconcilePermissions_eq receivedAt_withReceivedAt perm_id_withReceivedAt)

lemma firstSeen_unique:
  "distinct (map perm_id current) \<Longrightarrow> q \<in> set current \<Longrightarrow>
   firstSeen current now (perm_id q) = receivedAt q"
proof -
  assume d: "distinct (map perm_id current)" and q: "q \<in> set current"
  have "filter (\<lambda>x. perm_id x = perm_id q) current = [q]"
    using d q
  proof (induction current)
    case Nil
    then show ?case by simp
  next
    case (Cons a cur)
    then show ?case by (auto simp: filter_empty_conv image_iff)
  qed
  with q show ?thesis by (auto simp: firstSeen_def)
qed

lemma firstSeen_twice:
  "k \<in> perm_id ` set (reconcilePermissions current list now) \<Longrightarrow>
   firstSeen (reconcilePermissions current list now) now' k = firstSeen current now k"
proof -
  let ?r = "reconcilePermissions current list now"
  assume k: "k \<in> perm_id ` set ?r"
  then have ne: "filter (\<lambda>q. perm_id q = k) ?r \<noteq> []"
    by (auto simp: filter_empty_conv)
  then have "last (filter (\<lambda>q. perm_id q = k) ?r) \<in> set (filter (\<lambda>q. perm_id q = k) ?r)"
    by (rule last_in_set)
  then have in_r: "last (filter (\<lambda>q. perm_id q = k) ?r) \<in> set ?r"
    and id: "perm_id (last (filter (\<lambda>q. perm_id q = k) ?r)) = k"
    by auto
  from reconcilePermissions_same_id [OF in_r] id k show ?thesis
    by (simp add: firstSeen_def)
qed

text \<open>
  Claim C5. For every list held before, every list from the server and every clock
  reading \<open>now\<close>, the reconciled list is the server's list, entry by entry, each entry
  extended by \<open>receivedAt\<close>: the time stamp of the entry with the same id in the list
  held before (of the last one, should the id occur there more than once), and \<open>now\<close>
  when the id was not there. After two refreshes in a row, an entry whose id was in the
  result of the first has the time stamp it had there.
\<close>

theorem reconcilePermissions_keeps_first_seen:
  "length (reconcilePermissions current list now) = length list \<and>
   (\<forall>i < length list.
      PermissionRequest.truncate (reconcilePermissions current list now ! i) = list ! i \<and>
      (perm_id (list ! i) \<in> perm_id ` set current \<longrightarrow>
         receivedAt (reconcilePermissions current list now ! i) =
           receivedAt (last (filter (\<lambda>q. perm_id q = perm_id (list ! i)) current))) \<and>
      (perm_id (list ! i) \<notin> perm_id ` set current \<longrightarrow>
         receivedAt (reconcilePermissions current list now ! i) = now)) \<and>
   (distinct (map perm_id current) \<longrightarrow>
      (\<forall>i < length list. \<forall>q \<in> set current.
         perm_id q = perm_id (list ! i) \<longrightarrow>
         receivedAt (reconcilePermissions current list now ! i) = receivedAt q)) \<and>
   (\<forall>p \<in> set (reconcilePermissions (reconcilePermissions current list now) list' now').
      \<forall>q \<in> set (reconcilePermissions current list now).
        perm_id p = perm_id q \<longrightarrow> receivedAt p = receivedAt q)"
proof (intro conjI allI impI ballI)
  show "length (reconcilePermissions current list now) = length list"
    by (simp add: reconcilePermissions_eq)
next
  fix i assume "i < length list"
  then show "PermissionRequest.truncate (reconcilePermissions current list now ! i) = list ! i"
    by (simp add: reconcilePermissions_eq truncate_withReceivedAt)
next
  fix i assume "i < length list" "perm_id (list ! i) \<in> perm_id ` set current"
  then show "receivedAt (reconcilePermissions current list now ! i) =
      receivedAt (last (filter (\<lambda>q. perm_id q = perm_id (list ! i)) current))"
    by (simp add: reconcilePermissions_eq receivedAt_withReceivedAt firstSeen_def)
next
  fix i assume "i < length list" "perm_id (list ! i) \<notin> perm_id ` set current"
  then show "receivedAt (reconcilePermissions current list now ! i) = now"
    by (simp add: reconcilePermissions_eq receivedAt_withReceivedAt firstSeen_def)
next
  fix i q
  assume "distinct (map perm_id current)" "i < length list" "q \<in> set current"
    "perm_id q = perm_id (list ! i)"
  then show "receivedAt (reconcilePermissions current list now ! i) = receivedAt q"
    using firstSeen_unique [of current q now]
    by (simp add: reconcilePermissions_eq receivedAt_withReceivedAt)
next
  fix p q
  assume p: "p \<in> set (reconcilePermissions (reconcilePermissions current list now) list' now')"
    and q: "q \<in> set (reconcilePermissions current list now)"
    and eq: "perm_id p = perm_id q"
  from q eq have "perm_id p \<in> perm_id ` set (reconcilePermissions current list now)"
    by (metis imageI)
  then have "firstSeen (reconcilePermissions current list now) now' (perm_id p) =
      firstSeen current now (perm_id p)"
    by (rule firstSeen_twice)
  with reconcilePermissions_same_id [OF p] reconcilePermissions_same_id [OF q] eq
  show "receivedAt p = receivedAt q" by simp
qed

theorem reconcilePermissions_keeps_first_seen_witness:
  "(let perm1 = \<lparr>perm_id = js ''perm1'', perm_sessionID = js ''s1'', permission = js ''bash'',
                 patterns = [js ''ls''], metadata = JNull\<rparr>;
        perm2 = \<lparr>perm_id = js ''perm2'', perm_sessionID = js ''s1'', permission = js ''edit'',
                 patterns = [], metadata = JNull\<rparr>
    in reconcilePermissions [withReceivedAt perm1 1000] [perm1, perm2] 5000
         = [withReceivedAt perm1 1000, withReceivedAt perm2 5000] \<and>
       reconcilePermissions
           (reconcilePermissions [withReceivedAt perm1 1000] [perm1, perm2] 5000) [perm2, perm1] 9000
         = [withReceivedAt perm2 5000, withReceivedAt perm1 1000])"
proof -
  let ?perm1 = "\<lparr>perm_id = js ''perm1'', perm_sessionID = js ''s1'', permission = js ''bash'',
                 patterns = [js ''ls''], metadata = JNull\<rparr>"
  let ?perm2 = "\<lparr>perm_id = js ''perm2'', perm_sessionID = js ''s1'', permission = js ''edit'',
                 patterns = [], metadata = JNull\<rparr>"
  show ?thesis
    using reconcilePermissions_keeps_first_seen
      [of "[withReceivedAt ?perm1 1000]" "[?perm1, ?perm2]" 5000 "[?perm2, ?perm1]" 9000]
    by (simp add: js_def reconcilePermissions_def permissionsById_def withReceivedAt_def Let_def)
qed

section \<open>Formatting and parsing a model reference\<close>

lemma slash_not_space: "\<not> isWhiteSpace slash"
  by (simp add: isWhiteSpace_def slash_def)

lemma js_trim_id:
  "s \<noteq> [] \<Longrightarrow> \<not> isWhiteSpace (hd s) \<Longrightarrow> \<not> isWhiteSpace (last s) \<Longrightarrow> js_trim s = s"
proof -
  assume s: "s \<noteq> []" and h: "\<not> isWhiteSpace (hd s)" and l: "\<not> isWhiteSpace (last s)"
  from s h have a: "dropWhile isWhiteSpace s = s" by (cases s) simp_all
  from s l have "\<not> isWhiteSpace (hd (rev s))" by (simp add: hd_rev)
  with s have "dropWhile isWhiteSpace (rev s) = rev s" by (cases "rev s") simp_all
  with a show ?thesis by (simp add: js_trim_def)
qed

lemma js_split_not_Nil: "js_split s sep \<noteq> []"
  by (induction s) (auto split: list.splits)

lemma js_split_prefix:
  "sep \<notin> set p \<Longrightarrow> js_split (p @ sep # m) sep = p # js_split m sep"
  by (induction p) auto

lemma js_join_Cons_Cons: "js_join ((c # w) # ws) sep = c # js_join (w # ws) sep"
  by (cases ws) simp_all

lemma js_join_split: "js_join (js_split m sep) sep = m"
proof (induction m)
  case Nil
  then show ?case by simp
next
  case (Cons c cs)
  obtain w ws where ws: "js_split cs sep = w # ws"
    using js_split_not_Nil [of cs sep] by (cases "js_split cs sep") auto
  with Cons show ?case by (simp add: js_join_Cons_Cons)
qed

lemma parse_format:
  assumes "providerID m \<noteq> []" and "slash \<notin> set (providerID m)"
    and "\<not> isWhiteSpace (hd (providerID m))"
    and "modelID m = [] \<or> \<not> isWhiteSpace (last (modelID m))"
  shows "parseModelRef (Some (formatModelRef m)) = Some (m::ModelRef)"
proof -
  let ?raw = "providerID m @ slash # modelID m"
  have ne: "?raw \<noteq> []" by simp
  have hd: "\<not> isWhiteSpace (hd ?raw)" using assms(1,3) by simp
  have last: "\<not> isWhiteSpace (last ?raw)" using assms(4) slash_not_space by auto
  have trim: "js_trim ?raw = ?raw" using ne hd last by (rule js_trim_id)
  have split: "js_split ?raw slash = providerID m # js_split (modelID m) slash"
    using assms(2) by (rule js_split_prefix)
  show ?thesis
    using assms(1) trim split js_split_not_Nil [of "modelID m" slash]
    by (simp add: parseModelRef_def formatModelRef_def js_join_split)
qed

text \<open>
  Claim C10. For every model reference whose \<open>providerID\<close> is not empty, has no
  \<^verbatim>\<open>/\<close> and no white space at its start or end, and whose \<open>modelID\<close> has no white space
  at its start or end, parsing the formatted reference gives the reference back; so the
  preference that start-up reads back from what \<open>formatModelRef\<close> wrote is that model.
\<close>

theorem parseModelRef_formatModelRef:
  assumes "providerID m \<noteq> []"
    and "slash \<notin> set (providerID m)"
    and "\<not> isWhiteSpace (hd (providerID m))" and "\<not> isWhiteSpace (last (providerID m))"
    and "modelID m \<noteq> [] \<longrightarrow> \<not> isWhiteSpace (hd (modelID m)) \<and> \<not> isWhiteSpace (last (modelID m))"
  shows "parseModelRef (Some (formatModelRef m)) = Some (m::ModelRef) \<and>
         loadDefaultModel (Some (formatModelRef m)) = m"
proof -
  have "parseModelRef (Some (formatModelRef m)) = Some m"
    using assms by (intro parse_format) auto
  then show ?thesis by (simp add: loadDefaultModel_def)
qed

theorem parseModelRef_formatModelRef_witness:
  "formatModelRef \<lparr>providerID = js ''openai'', modelID = js ''gpt-5/mini''\<rparr> = js ''openai/gpt-5/mini'' \<and>
   parseModelRef (Some (js ''openai/gpt-5/mini'')) =
     Some \<lparr>providerID = js ''openai'', modelID = js ''gpt-5/mini''\<rparr> \<and>
   loadDefaultModel (Some (formatModelRef \<lparr>providerID = js ''openai'', modelID = js ''gpt-5/mini''\<rparr>)) =
     \<lparr>providerID = js ''openai'', modelID = js ''gpt-5/mini''\<rparr>"
proof -
  have f: "formatModelRef \<lparr>providerID = js ''openai'', modelID = js ''gpt-5/mini''\<rparr>
      = js ''openai/gpt-5/mini''"
    by (simp add: formatModelRef_def js_def slash_def)
  have "parseModelRef (Some (formatModelRef \<lparr>providerID = js ''openai'', modelID = js ''gpt-5/mini''\<rparr>))
      = Some \<lparr>providerID = js ''openai'', modelID = js ''gpt-5/mini''\<rparr> \<and>
    loadDefaultModel (Some (formatModelRef \<lparr>providerID = js ''openai'', modelID = js ''gpt-5/mini''\<rparr>))
      = \<lparr>providerID = js ''openai'', modelID = js ''gpt-5/mini''\<rparr>"
    by (rule parseModelRef_formatModelRef) (simp_all add: js_def slash_def isWhiteSpace_def)
  with f show ?thesis by simp
qed

section \<open>Resolving the model of the selected session\<close>

lemma modelFromUserMessage_user: "modelFromUserMessage i = Some m \<Longrightarrow> msg_role i = User"
  by (simp add: modelFromUserMessage_def split: if_splits)

lemma lastUserModel_from_None:
  "lastUserModel_from list n = None \<longleftrightarrow>
     (\<forall>i < n. modelFromUserMessage (info (list ! i)) = None)"
  by (induction n) (auto simp: less_Suc_eq split: option.splits)

lemma lastUserModel_from_latest:
  "i < n \<Longrightarrow> modelFromUserMessage (info (list ! i)) = Some m \<Longrightarrow>
   \<forall>j. i < j \<and> j < n \<longrightarrow> modelFromUserMessage (info (list ! j)) = None \<Longrightarrow>
   lastUserModel_from list n = Some m"
proof (induction n)
  case 0
  then show ?case by simp
next
  case (Suc n)
  show ?case
  proof (cases "i = n")
    case True
    with Suc.prems show ?thesis by simp
  next
    case False
    with Suc.prems have "i < n" by simp
    moreover have "modelFromUserMessage (info (list ! n)) = None"
      using Suc.prems \<open>i < n\<close> by simp
    moreover have "\<forall>j. i < j \<and> j < n \<longrightarrow> modelFromUserMessage (info (list ! j)) = None"
      using Suc.prems by simp
    ultimately show ?thesis using Suc.IH Suc.prems(2) by simp
  qed
qed

lemma lastUserModelFromMessages_None:
  "\<forall>x \<in> set list. modelFromUserMessage (info x) = None \<Longrightarrow>
   lastUserModelFromMessages list = None"
  by (simp add: lastUserModelFromMessages_def lastUserModel_from_None)

lemma record_get_own: "sid \<notin> set objectPrototypeMembers \<Longrightarrow> record_get record sid = record sid"
  by (simp add: record_get_def split: option.splits)

lemma record_get_inherited:
  "sid \<in> set objectPrototypeMembers \<Longrightarrow> record sid = None \<Longrightarrow>
   record_get record sid = Some (Inherited sid)"
  by (simp add: record_get_def)

lemma selectedSessionModel_chain:
  "selectedSessionId st = Some sid \<Longrightarrow> sid \<noteq> [] \<Longrightarrow>
   sid \<notin> set objectPrototypeMembers \<Longrightarrow>
   selectedSessionModel st =
     (case sessionModelOverrideById st sid of
        Some v \<Rightarrow> v
      | None \<Rightarrow>
          (case sessionModelById st sid of
             Some v \<Rightarrow> v
           | None \<Rightarrow>
               (case lastUserModelFromMessages (messages st) of
                  Some m \<Rightarrow> Model m
                | None \<Rightarrow> Model (defaultModel st))))"
  by (simp add: selectedSessionModel_def record_get_own split: option.splits)

lemma selectedSessionModel_no_selection:
  "selectedSessionId st = None \<or> selectedSessionId st = Some [] \<Longrightarrow>
   selectedSessionModel st = Model (defaultModel st)"
  by (auto simp: selectedSessionModel_def)

lemma selectedSessionModel_inherited:
  "selectedSessionId st = Some sid \<Longrightarrow> sid \<noteq> [] \<Longrightarrow>
   sid \<in> set objectPrototypeMembers \<Longrightarrow> sessionModelOverrideById st sid = None \<Longrightarrow>
   selectedSessionModel st = Inherited sid"
  by (simp add: selectedSessionModel_def record_get_inherited split: option.splits)

lemma rememberSessionModel_resolves:
  "selectedSessionId st = Some sid \<Longrightarrow> sid \<noteq> [] \<Longrightarrow>
   sid \<notin> set objectPrototypeMembers \<Longrightarrow>
   selectedSessionModel (rememberSessionModel sid v st) = v"
  by (simp add: selectedSessionModel_def rememberSessionModel_def record_get_own
      split: option.splits)

lemma sendPrompt_start_request:
  "sendPrompt_start st = (st1, Some req) \<Longrightarrow>
   selectedSessionId st = Some (req_sessionID req) \<and> req_sessionID req \<noteq> [] \<and>
   req_model req = selectedSessionModel st \<and> req_text req = js_trim (prompt st) \<and>
   st1 = st\<lparr>error := None, prompt := []\<rparr>"
  by (auto simp: sendPrompt_start_def selectedSessionModel_def Let_def
      split: option.splits if_splits)

lemma sendPrompt_start_returns: "sendPrompt_start st = (st1, None) \<Longrightarrow> st1 = st"
  by (auto simp: sendPrompt_start_def Let_def split: option.splits if_splits)

lemma sendPrompt_start_runs:
  "client st \<noteq> None \<Longrightarrow> selectedSessionId st = Some sid \<Longrightarrow> sid \<noteq> [] \<Longrightarrow>
   js_trim (prompt st) \<noteq> [] \<Longrightarrow>
   sendPrompt_start st =
     (st\<lparr>error := None, prompt := []\<rparr>,
      Some \<lparr>req_sessionID = sid, req_model = selectedSessionModel st,
            req_text = js_trim (prompt st)\<rparr>)"
  by (auto simp: sendPrompt_start_def selectedSessionModel_def Let_def split: option.splits)

lemma sendPrompt_settled_ok:
  "prompt_reply rs = Inr u \<Longrightarrow>
   sessionModelById (sendPrompt_settled req rs st) =
     (sessionModelById st)(req_sessionID req \<mapsto> req_model req) \<and>
   sessionModelOverrideById (sendPrompt_settled req rs st) =
     (sessionModelOverrideById st)(req_sessionID req := None) \<and>
   selectedSessionId (sendPrompt_settled req rs st) = selectedSessionId st"
  by (simp add: sendPrompt_settled_def sendPrompt_sent_def rememberSessionModel_def Let_def
      split: sum.splits)

lemma sendPrompt_settled_failed:
  "prompt_reply rs = Inl e \<Longrightarrow> sendPrompt_settled req rs st = st\<lparr>error := Some e\<rparr>"
  by (simp add: sendPrompt_settled_def)

text \<open>
  Claim C4, as the code has it. For a selected session whose id is a non-empty string
  and not the name of a member of \<^verbatim>\<open>Object.prototype\<close>: the model resolved is the
  session's override if there is one; else the session's last known model; else the
  model of the last message in the list that is written by the user and carries a
  model; else the global default. A prompt that \<open>sendPrompt\<close> sends carries the model
  so resolved; once the send has succeeded, whatever the state then is, that model is
  the session's last known model and the session has no override, so that resolving for
  the session gives the same model again. A failed send changes neither.
\<close>

theorem selectedSessionModel_precedence:
  assumes "selectedSessionId st = Some sid" and "sid \<noteq> []"
    and "sid \<notin> set objectPrototypeMembers"
  shows
    "(\<forall>v. sessionModelOverrideById st sid = Some v \<longrightarrow> selectedSessionModel st = v) \<and>
     (\<forall>v. sessionModelOverrideById st sid = None \<and> sessionModelById st sid = Some v \<longrightarrow>
          selectedSessionModel st = v) \<and>
     (\<forall>m i. sessionModelOverrideById st sid = None \<and> sessionModelById st sid = None \<and>
            i < length (messages st) \<and>
            modelFromUserMessage (info (messages st ! i)) = Some m \<and>
            (\<forall>j. i < j \<and> j < length (messages st) \<longrightarrow>
                 modelFromUserMessage (info (messages st ! j)) = None) \<longrightarrow>
            selectedSessionModel st = Model m \<and> msg_role (info (messages st ! i)) = User) \<and>
     (sessionModelOverrideById st sid = None \<and> sessionModelById st sid = None \<and>
      (\<forall>x \<in> set (messages st). modelFromUserMessage (info x) = None) \<longrightarrow>
        selectedSessionModel st = Model (defaultModel st)) \<and>
     (\<forall>st1 req. sendPrompt_start st = (st1, Some req) \<longrightarrow>
        req_sessionID req = sid \<and> req_model req = selectedSessionModel st \<and>
        (\<forall>st'. sessionModelById (sendPrompt_sent req st') sid = Some (selectedSessionModel st) \<and>
               sessionModelOverrideById (sendPrompt_sent req st') sid = None \<and>
               (selectedSessionId st' = Some sid \<longrightarrow>
                  selectedSessionModel (sendPrompt_sent req st') = selectedSessionModel st))) \<and>
     (\<forall>rs. client st \<noteq> None \<and> js_trim (prompt st) \<noteq> [] \<and> prompt_reply rs = Inr () \<longrightarrow>
        sessionModelById (sendPrompt rs st) sid = Some (selectedSessionModel st) \<and>
        sessionModelOverrideById (sendPrompt rs st) sid = None \<and>
        selectedSessionModel (sendPrompt rs st) = selectedSessionModel st) \<and>
     (\<forall>rs e. prompt_reply rs = Inl e \<longrightarrow>
        sessionModelById (sendPrompt rs st) = sessionModelById st \<and>
        sessionModelOverrideById (sendPrompt rs st) = sessionModelOverrideById st)"
proof (intro conjI allI impI)
  fix v assume "sessionModelOverrideById st sid = Some v"
  then show "selectedSessionModel st = v"
    using assms by (simp add: selectedSessionModel_chain)
next
  fix v assume "sessionModelOverrideById st sid = None \<and> sessionModelById st sid = Some v"
  then show "selectedSessionModel st = v"
    using assms by (simp add: selectedSessionModel_chain)
next
  fix m i
  assume h: "sessionModelOverrideById st sid = None \<and> sessionModelById st sid = None \<and>
            i < length (messages st) \<and>
            modelFromUserMessage (info (messages st ! i)) = Some m \<and>
            (\<forall>j. i < j \<and> j < length (messages st) \<longrightarrow>
                 modelFromUserMessage (info (messages st ! j)) = None)"
  then have "lastUserModelFromMessages (messages st) = Some m"
    unfolding lastUserModelFromMessages_def by (intro lastUserModel_from_latest) auto
  with h show "selectedSessionModel st = Model m"
    using assms by (simp add: selectedSessionModel_chain)
  from h show "msg_role (info (messages st ! i)) = User"
    by (auto dest: modelFromUserMessage_user)
next
  assume h: "sessionModelOverrideById st sid = None \<and> sessionModelById st sid = None \<and>
      (\<forall>x \<in> set (messages st). modelFromUserMessage (info x) = None)"
  then have "lastUserModelFromMessages (messages st) = None"
    by (simp add: lastUserModelFromMessages_None)
  with h show "selectedSessionModel st = Model (defaultModel st)"
    using assms by (simp add: selectedSessionModel_chain)
next
  fix st1 :: store and req :: PromptRequest assume s: "sendPrompt_start st = (st1, Some req)"
  from sendPrompt_start_request [OF s] assms
  show "req_sessionID req = sid" by simp
  from sendPrompt_start_request [OF s]
  show "req_model req = selectedSessionModel st" by simp
next
  fix st1 :: store and req :: PromptRequest and st' :: store
  assume s: "sendPrompt_start st = (st1, Some req)"
  from sendPrompt_start_request [OF s] assms
  have r: "req_sessionID req = sid" "req_model req = selectedSessionModel st" by simp_all
  then show "sessionModelById (sendPrompt_sent req st') sid = Some (selectedSessionModel st)"
    by (simp add: sendPrompt_sent_def rememberSessionModel_def)
  from r show "sessionModelOverrideById (sendPrompt_sent req st') sid = None"
    by (simp add: sendPrompt_sent_def rememberSessionModel_def)
  assume "selectedSessionId st' = Some sid"
  with r assms(2,3)
  show "selectedSessionModel (sendPrompt_sent req st') = selectedSessionModel st"
    by (simp add: sendPrompt_sent_def rememberSessionModel_resolves)
next
  fix rs :: PromptReplies
  assume h: "client st \<noteq> None \<and> js_trim (prompt st) \<noteq> [] \<and> prompt_reply rs = Inr ()"
  let ?req = "\<lparr>req_sessionID = sid, req_model = selectedSessionModel st,
               req_text = js_trim (prompt st)\<rparr>"
  let ?st1 = "st\<lparr>error := None, prompt := []\<rparr>"
  from h assms have run: "sendPrompt rs st = sendPrompt_settled ?req rs ?st1"
    by (simp add: sendPrompt_def sendPrompt_start_runs)
  from h have ok: "prompt_reply rs = Inr ()" by simp
  note fin = sendPrompt_settled_ok [OF ok, of ?req ?st1]
  from fin run show "sessionModelById (sendPrompt rs st) sid = Some (selectedSessionModel st)"
    by simp
  from fin run show "sessionModelOverrideById (sendPrompt rs st) sid = None"
    by simp
  from fin run assms show "selectedSessionModel (sendPrompt rs st) = selectedSessionModel st"
    by (simp add: selectedSessionModel_def record_get_own split: option.splits)
next
  fix rs :: PromptReplies and e assume f: "prompt_reply rs = Inl e"
  show "sessionModelById (sendPrompt rs st) = sessionModelById st"
    using f by (auto simp: sendPrompt_def sendPrompt_settled_failed
        dest: sendPrompt_start_request sendPrompt_start_returns
        split: prod.splits option.splits)
  show "sessionModelOverrideById (sendPrompt rs st) = sessionModelOverrideById st"
    using f by (auto simp: sendPrompt_def sendPrompt_settled_failed
        dest: sendPrompt_start_request sendPrompt_start_returns
        split: prod.splits option.splits)
qed

theorem selectedSessionModel_precedence_witness:
  "(let openai = \<lparr>providerID = js ''openai'', modelID = js ''gpt-5''\<rparr>;
        anthropic = \<lparr>providerID = js ''anthropic'', modelID = js ''claude''\<rparr>;
        google = \<lparr>providerID = js ''google'', modelID = js ''gemini''\<rparr>;
        asked = \<lparr>info = \<lparr>msg_id = js ''m1'', msg_sessionID = js ''s1'', msg_role = User,
                         msg_model = Some (JObj [(js ''providerID'', JStr (js ''google'')),
                                                 (js ''modelID'', JStr (js ''gemini''))])\<rparr>,
                 parts = []\<rparr>;
        answered = \<lparr>info = \<lparr>msg_id = js ''m2'', msg_sessionID = js ''s1'', msg_role = Assistant,
                            msg_model = None\<rparr>, parts = []\<rparr>;
        st = \<lparr>client = Some (Client (js ''http://127.0.0.1:4096'')), sessions = [],
              selectedSessionId = Some (js ''s1''), messages = [asked, answered], todos = [],
              pendingPermissions = [], prompt = js '' go '', defaultModel = DEFAULT_MODEL,
              sessionModelOverrideById = [js ''s1'' \<mapsto> Model openai],
              sessionModelById = [js ''s1'' \<mapsto> Model anthropic], error = None\<rparr>;
        sent = \<lparr>prompt_reply = Inr (), messages_reply = Inr [], todo_reply = Inr [],
                sessions_reply = Inr []\<rparr>;
        refused = \<lparr>prompt_reply = Inl (js ''refused''), messages_reply = Inr [],
                   todo_reply = Inr [], sessions_reply = Inr []\<rparr>
    in selectedSessionModel st = Model openai \<and>
       selectedSessionModel (st\<lparr>sessionModelOverrideById := Map.empty\<rparr>) = Model anthropic \<and>
       selectedSessionModel
         (st\<lparr>sessionModelOverrideById := Map.empty, sessionModelById := Map.empty\<rparr>)
         = Model google \<and>
       selectedSessionModel
         (st\<lparr>sessionModelOverrideById := Map.empty, sessionModelById := Map.empty,
             messages := [answered]\<rparr>) = Model DEFAULT_MODEL \<and>
       sessionModelById (sendPrompt sent st) (js ''s1'') = Some (Model openai) \<and>
       sessionModelOverrideById (sendPrompt sent st) (js ''s1'') = None \<and>
       selectedSessionModel (sendPrompt sent st) = Model openai \<and>
       sessionModelById (sendPrompt refused st) (js ''s1'') = Some (Model anthropic) \<and>
       sessionModelOverrideById (sendPrompt refused st) (js ''s1'') = Some (Model openai))"
proof -
  let ?openai = "\<lparr>providerID = js ''openai'', modelID = js ''gpt-5''\<rparr>"
  let ?anthropic = "\<lparr>providerID = js ''anthropic'', modelID = js ''claude''\<rparr>"
  let ?google = "\<lparr>providerID = js ''google'', modelID = js ''gemini''\<rparr>"
  let ?asked = "\<lparr>info = \<lparr>msg_id = js ''m1'', msg_sessionID = js ''s1'', msg_role = User,
                         msg_model = Some (JObj [(js ''providerID'', JStr (js ''google'')),
                                                 (js ''modelID'', JStr (js ''gemini''))])\<rparr>,
                 parts = []\<rparr>"
  let ?answered = "\<lparr>info = \<lparr>msg_id = js ''m2'', msg_sessionID = js ''s1'', msg_role = Assistant,
                            msg_model = None\<rparr>, parts = []\<rparr>"
  let ?st = "\<lparr>client = Some (Client (js ''http://127.0.0.1:4096'')), sessions = [],
              selectedSessionId = Some (js ''s1''), messages = [?asked, ?answered], todos = [],
              pendingPermissions = [], prompt = js '' go '', defaultModel = DEFAULT_MODEL,
              sessionModelOverrideById = [js ''s1'' \<mapsto> Model ?openai],
              sessionModelById = [js ''s1'' \<mapsto> Model ?anthropic], error = None\<rparr>"
  let ?known = "?st\<lparr>sessionModelOverrideById := Map.empty\<rparr>"
  let ?history = "?st\<lparr>sessionModelOverrideById := Map.empty, sessionModelById := Map.empty\<rparr>"
  let ?fresh = "?st\<lparr>sessionModelOverrideById := Map.empty, sessionModelById := Map.empty,
                   messages := [?answered]\<rparr>"
  let ?sent = "\<lparr>prompt_reply = Inr (), messages_reply = Inr [], todo_reply = Inr [],
                sessions_reply = Inr []\<rparr>"
  let ?refused = "\<lparr>prompt_reply = Inl (js ''refused''), messages_reply = Inr [],
                   todo_reply = Inr [], sessions_reply = Inr []\<rparr>"
  have ne: "js ''s1'' \<noteq> []" by (simp add: js_def)
  have own: "js ''s1'' \<notin> set objectPrototypeMembers"
    by (simp add: objectPrototypeMembers_def js_def)
  have asked: "modelFromUserMessage (info ?asked) = Some ?google"
    by (simp add: modelFromUserMessage_def js_def)
  have answered: "modelFromUserMessage (info ?answered) = None"
    by (simp add: modelFromUserMessage_def)
  have cl: "client ?st \<noteq> None \<and> js_trim (prompt ?st) \<noteq> [] \<and> prompt_reply ?sent = Inr ()"
    by (simp add: js_def js_trim_def isWhiteSpace_def)
  have sel: "selectedSessionId ?st = Some (js ''s1'')" by simp
  have sel_known: "selectedSessionId ?known = Some (js ''s1'')" by simp
  have sel_history: "selectedSessionId ?history = Some (js ''s1'')" by simp
  have sel_fresh: "selectedSessionId ?fresh = Some (js ''s1'')" by simp
  note chain = selectedSessionModel_precedence [OF sel ne own]
  have a: "selectedSessionModel ?st = Model ?openai"
    using chain [THEN conjunct1, rule_format, of "Model ?openai"] by simp
  have b: "selectedSessionModel ?known = Model ?anthropic"
    using selectedSessionModel_precedence [OF sel_known ne own, THEN conjunct2, THEN conjunct1,
        rule_format, of "Model ?anthropic"]
    by simp
  have later: "\<forall>j. 0 < j \<and> j < length (messages ?history) \<longrightarrow>
      modelFromUserMessage (info (messages ?history ! j)) = None"
  proof (intro allI impI)
    fix j assume "0 < j \<and> j < length (messages ?history)"
    then have "j = 1" by simp
    then show "modelFromUserMessage (info (messages ?history ! j)) = None"
      using answered by simp
  qed
  have from_history: "sessionModelOverrideById ?history (js ''s1'') = None \<and>
      sessionModelById ?history (js ''s1'') = None \<and>
      0 < length (messages ?history) \<and>
      modelFromUserMessage (info (messages ?history ! 0)) = Some ?google \<and>
      (\<forall>j. 0 < j \<and> j < length (messages ?history) \<longrightarrow>
         modelFromUserMessage (info (messages ?history ! j)) = None)"
    using asked later by simp
  have c: "selectedSessionModel ?history = Model ?google"
    using selectedSessionModel_precedence [OF sel_history ne own, THEN conjunct2, THEN conjunct2,
        THEN conjunct1, rule_format, of 0 ?google, OF from_history]
    by (rule conjunct1)
  have d: "selectedSessionModel ?fresh = Model DEFAULT_MODEL"
    using selectedSessionModel_precedence [OF sel_fresh ne own, THEN conjunct2, THEN conjunct2,
        THEN conjunct2, THEN conjunct1, rule_format] answered
    by simp
  have e: "sessionModelById (sendPrompt ?sent ?st) (js ''s1'') = Some (Model ?openai) \<and>
     sessionModelOverrideById (sendPrompt ?sent ?st) (js ''s1'') = None \<and>
     selectedSessionModel (sendPrompt ?sent ?st) = Model ?openai"
    using chain [THEN conjunct2, THEN conjunct2, THEN conjunct2, THEN conjunct2, THEN conjunct2,
        THEN conjunct1, rule_format, of ?sent] cl a
    by simp
  have f: "sessionModelById (sendPrompt ?refused ?st) (js ''s1'') = Some (Model ?anthropic) \<and>
     sessionModelOverrideById (sendPrompt ?refused ?st) (js ''s1'') = Some (Model ?openai)"
    using chain [THEN conjunct2, THEN conjunct2, THEN conjunct2, THEN conjunct2, THEN conjunct2,
        THEN conjunct2, rule_format, of ?refused "js ''refused''"]
    by simp
  from a b c d e f show ?thesis by (simp only: Let_def)
qed

text \<open>
  The session \<^verbatim>\<open>constructor\<close> has a last known model and no override, yet what is
  resolved is the member \<^verbatim>\<open>constructor\<close> of \<^verbatim>\<open>Object.prototype\<close>, found where the
  override is looked up. And with the empty string as the selected id, which the code
  takes for no selection, the default is resolved though a model is known for that id.
\<close>

theorem selectedSessionModel_precedence_counterexample:
  "selectedSessionModel
     \<lparr>client = Some (Client (js ''http://127.0.0.1:4096'')), sessions = [],
      selectedSessionId = Some (js ''constructor''), messages = [], todos = [],
      pendingPermissions = [], prompt = [], defaultModel = DEFAULT_MODEL,
      sessionModelOverrideById = Map.empty,
      sessionModelById =
        [js ''constructor'' \<mapsto> Model \<lparr>providerID = js ''anthropic'', modelID = js ''claude''\<rparr>],
      error = None\<rparr>
     = Inherited (js ''constructor'') \<and>
   selectedSessionModel
     \<lparr>client = Some (Client (js ''http://127.0.0.1:4096'')), sessions = [],
      selectedSessionId = Some [], messages = [], todos = [],
      pendingPermissions = [], prompt = [], defaultModel = DEFAULT_MODEL,
      sessionModelOverrideById = Map.empty,
      sessionModelById =
        Map.empty([] \<mapsto> Model \<lparr>providerID = js ''anthropic'', modelID = js ''claude''\<rparr>),
      error = None\<rparr>
     = Model DEFAULT_MODEL \<and>
   DEFAULT_MODEL \<noteq> \<lparr>providerID = js ''anthropic'', modelID = js ''claude''\<rparr>"
  by (simp add: selectedSessionModel_def record_get_def objectPrototypeMembers_def
      DEFAULT_MODEL_def js_def)

section \<open>Waiting for a healthy server\<close>

lemma round_ms_nonneg: "0 \<le> round_ms poll p"
  by (simp add: round_ms_def)

lemma rounds_nonneg: "0 \<le> sum_list (map (round_ms poll) ps)"
  by (induction ps) (simp_all add: round_ms_nonneg)

lemma wait_loop_timed_out:
  "\<not> t < timeout \<Longrightarrow>
   wait_loop timeout poll t lastError ps =
     Some (Inl (case lastError of
                  None \<Rightarrow> js ''Timed out waiting for server health''
                | Some m \<Rightarrow> m))"
  by (cases ps) simp_all

lemma wait_loop_failures:
  "pre \<noteq> [] \<Longrightarrow> \<forall>p \<in> set pre. \<exists>m. attempt_of p = Failure m \<Longrightarrow>
   t + sum_list (map (round_ms poll) (butlast pre)) < timeout \<Longrightarrow>
   attempt_of (last pre) = Failure r \<Longrightarrow>
   wait_loop timeout poll t lastError (pre @ rest) =
     wait_loop timeout poll (t + sum_list (map (round_ms poll) pre)) (Some r) rest"
proof (induction pre arbitrary: t lastError)
  case Nil
  then show ?case by simp
next
  case (Cons p pre)
  from Cons.prems(2) obtain m where m: "attempt_of p = Failure m" by auto
  show ?case
  proof (cases "pre = []")
    case True
    with Cons.prems m show ?thesis by simp
  next
    case False
    have t: "t < timeout"
      using Cons.prems(3) False round_ms_nonneg [of poll p] rounds_nonneg [of poll "butlast pre"]
      by simp
    have "wait_loop timeout poll (t + round_ms poll p) (Some m) (pre @ rest) =
        wait_loop timeout poll (t + round_ms poll p + sum_list (map (round_ms poll) pre))
          (Some r) rest"
      using Cons.prems False by (intro Cons.IH) (simp_all add: add.assoc)
    with t m show ?thesis by (simp add: add.assoc)
  qed
qed

lemma wait_loop_healthy:
  assumes "\<forall>p \<in> set pre. \<exists>m. attempt_of p = Failure m"
    and "t + sum_list (map (round_ms poll) pre) < timeout"
    and "attempt_of p = Healthy h"
  shows "wait_loop timeout poll t lastError (pre @ p # rest) = Some (Inr h)"
proof (cases "pre = []")
  case True
  with assms show ?thesis by simp
next
  case False
  then obtain r where r: "attempt_of (last pre) = Failure r"
    using assms(1) last_in_set [of pre] by blast
  have "sum_list (map (round_ms poll) (butlast pre)) \<le> sum_list (map (round_ms poll) pre)"
  proof -
    have "pre = butlast pre @ [last pre]" using False by simp
    then have "sum_list (map (round_ms poll) pre) =
        sum_list (map (round_ms poll) (butlast pre)) + round_ms poll (last pre)"
      by (metis (no_types) map_append sum_list.append list.simps(8,9) sum_list.Cons
          sum_list.Nil add.right_neutral)
    then show ?thesis using round_ms_nonneg [of poll "last pre"] by simp
  qed
  with assms(2) have "t + sum_list (map (round_ms poll) (butlast pre)) < timeout" by simp
  from wait_loop_failures [OF False assms(1) this r, of lastError "p # rest"] assms(2,3)
  show ?thesis by simp
qed

lemma wait_loop_gives_up:
  assumes "pre \<noteq> []" and "\<forall>p \<in> set pre. \<exists>m. attempt_of p = Failure m"
    and "t + sum_list (map (round_ms poll) (butlast pre)) < timeout"
    and "timeout \<le> t + sum_list (map (round_ms poll) pre)"
    and "attempt_of (last pre) = Failure r"
  shows "wait_loop timeout poll t lastError (pre @ rest) = Some (Inl r)"
  using wait_loop_failures [OF assms(1,2,3,5), of lastError rest] assms(4)
  by (simp add: wait_loop_timed_out)

lemma wait_loop_total:
  "0 \<le> poll \<Longrightarrow> timeout \<le> t + int (length ps) * poll \<Longrightarrow>
   wait_loop timeout poll t lastError ps \<noteq> None"
proof (induction ps arbitrary: t lastError)
  case Nil
  then show ?case by simp
next
  case (Cons p ps)
  have "poll \<le> round_ms poll p" by (simp add: round_ms_def)
  with Cons.prems have "timeout \<le> t + round_ms poll p + int (length ps) * poll"
    by (simp add: algebra_simps)
  with Cons.prems(1) have "wait_loop timeout poll (t + round_ms poll p) (Some m) ps \<noteq> None" for m
    by (intro Cons.IH)
  then show ?case by (simp split: attempt.splits)
qed

text \<open>
  Claim C6, as the code has it. For every sequence of polls: when the polls before one
  that reports healthy all fail and that poll starts before the timeout has elapsed,
  the probe returns its payload (\<open>healthy\<close> and \<open>version\<close>); when no poll reports
  healthy and the timeout elapses during the round of a poll, the probe fails with the
  reason of that poll, the last one made: the message of the error thrown,
  \<^verbatim>\<open>Unknown error\<close> for a thrown value that is no error, or \<^verbatim>\<open>Server reported unhealthy\<close>;
  when the timeout is not positive, no poll is made and the probe fails with
  \<^verbatim>\<open>Timed out waiting for server health\<close>. With a non-negative poll interval, enough
  polls always settle the outcome.
\<close>

theorem waitForHealthy_outcome:
  "(\<forall>pre p rest h.
      (\<forall>q \<in> set pre. \<exists>m. attempt_of q = Failure m) \<and>
      sum_list (map (round_ms (pollMs_of options)) pre) < timeoutMs_of options \<and>
      attempt_of p = Healthy h \<longrightarrow>
      waitForHealthy options (pre @ p # rest) = Some (Inr h)) \<and>
   (\<forall>pre rest r.
      pre \<noteq> [] \<and> (\<forall>q \<in> set pre. \<exists>m. attempt_of q = Failure m) \<and>
      sum_list (map (round_ms (pollMs_of options)) (butlast pre)) < timeoutMs_of options \<and>
      timeoutMs_of options \<le> sum_list (map (round_ms (pollMs_of options)) pre) \<and>
      attempt_of (last pre) = Failure r \<longrightarrow>
      waitForHealthy options (pre @ rest) = Some (Inl r)) \<and>
   (\<forall>ps. timeoutMs_of options \<le> 0 \<longrightarrow>
      waitForHealthy options ps = Some (Inl (js ''Timed out waiting for server health''))) \<and>
   (\<forall>ps. 0 \<le> pollMs_of options \<and>
      timeoutMs_of options \<le> int (length ps) * pollMs_of options \<longrightarrow>
      waitForHealthy options ps \<noteq> None)"
proof (intro conjI allI impI)
  fix pre :: "Poll list" and p :: Poll and rest :: "Poll list" and h :: Health
  assume "(\<forall>q \<in> set pre. \<exists>m. attempt_of q = Failure m) \<and>
      sum_list (map (round_ms (pollMs_of options)) pre) < timeoutMs_of options \<and>
      attempt_of p = Healthy h"
  then show "waitForHealthy options (pre @ p # rest) = Some (Inr h)"
    unfolding waitForHealthy_def by (intro wait_loop_healthy) simp_all
next
  fix pre :: "Poll list" and rest :: "Poll list" and r :: jsstring
  assume "pre \<noteq> [] \<and> (\<forall>q \<in> set pre. \<exists>m. attempt_of q = Failure m) \<and>
      sum_list (map (round_ms (pollMs_of options)) (butlast pre)) < timeoutMs_of options \<and>
      timeoutMs_of options \<le> sum_list (map (round_ms (pollMs_of options)) pre) \<and>
      attempt_of (last pre) = Failure r"
  then show "waitForHealthy options (pre @ rest) = Some (Inl r)"
    unfolding waitForHealthy_def by (intro wait_loop_gives_up) simp_all
next
  fix ps :: "Poll list" assume "timeoutMs_of options \<le> 0"
  then show "waitForHealthy options ps = Some (Inl (js ''Timed out waiting for server health''))"
    by (simp add: waitForHealthy_def wait_loop_timed_out)
next
  fix ps :: "Poll list"
  assume "0 \<le> pollMs_of options \<and> timeoutMs_of options \<le> int (length ps) * pollMs_of options"
  then show "waitForHealthy options ps \<noteq> None"
    unfolding waitForHealthy_def by (intro wait_loop_total) simp_all
qed

theorem waitForHealthy_outcome_witness:
  "(let bad = \<lparr>health_call = Resolves (Data \<lparr>healthy = False, version = js ''1.2.3''\<rparr>),
               call_ms = 0, late_ms = 0\<rparr>;
        down = \<lparr>health_call = Rejects (ErrorObj (js ''TypeError'') (js ''Failed to fetch'')),
                call_ms = 0, late_ms = 0\<rparr>;
        good = \<lparr>health_call = Resolves (Data \<lparr>healthy = True, version = js ''1.2.3''\<rparr>),
                call_ms = 0, late_ms = 0\<rparr>
    in waitForHealthy (Some \<lparr>timeoutMs = Some 500, pollMs = None\<rparr>) [bad, bad, bad, good]
         = Some (Inl (js ''Server reported unhealthy'')) \<and>
       waitForHealthy (Some \<lparr>timeoutMs = Some 500, pollMs = None\<rparr>) [bad, down]
         = Some (Inl (js ''Failed to fetch'')) \<and>
       waitForHealthy (Some \<lparr>timeoutMs = Some 500, pollMs = None\<rparr>) [bad, good]
         = Some (Inr \<lparr>healthy = True, version = js ''1.2.3''\<rparr>) \<and>
       waitForHealthy (Some \<lparr>timeoutMs = Some 500, pollMs = None\<rparr>) [bad] = None \<and>
       waitForHealthy (Some \<lparr>timeoutMs = Some 500, pollMs = None\<rparr>) [bad, bad] \<noteq> None \<and>
       waitForHealthy (Some \<lparr>timeoutMs = Some 0, pollMs = None\<rparr>) [good]
         = Some (Inl (js ''Timed out waiting for server health'')))"
proof -
  let ?opts = "Some \<lparr>timeoutMs = Some 500, pollMs = None\<rparr>"
  let ?bad = "\<lparr>health_call = Resolves (Data \<lparr>healthy = False, version = js ''1.2.3''\<rparr>),
               call_ms = 0, late_ms = 0\<rparr>"
  let ?down = "\<lparr>health_call = Rejects (ErrorObj (js ''TypeError'') (js ''Failed to fetch'')),
                call_ms = 0, late_ms = 0\<rparr>"
  let ?good = "\<lparr>health_call = Resolves (Data \<lparr>healthy = True, version = js ''1.2.3''\<rparr>),
                call_ms = 0, late_ms = 0\<rparr>"
  have bad: "attempt_of ?bad = Failure (js ''Server reported unhealthy'')"
    by (simp add: attempt_of_def unwrap_def)
  have down: "attempt_of ?down = Failure (js ''Failed to fetch'')"
    by (simp add: attempt_of_def)
  have good: "attempt_of ?good = Healthy \<lparr>healthy = True, version = js ''1.2.3''\<rparr>"
    by (simp add: attempt_of_def unwrap_def)
  have opts: "timeoutMs_of ?opts = 500" "pollMs_of ?opts = 250"
    by (simp_all add: timeoutMs_of_def pollMs_of_def)
  have rd: "round_ms 250 ?bad = 250" "round_ms 250 ?down = 250"
    by (simp_all add: round_ms_def)
  note outcome = waitForHealthy_outcome [of ?opts]
  from outcome have "(\<forall>q \<in> set [?bad]. \<exists>m. attempt_of q = Failure m) \<and>
      sum_list (map (round_ms (pollMs_of ?opts)) [?bad]) < timeoutMs_of ?opts \<and>
      attempt_of ?good = Healthy \<lparr>healthy = True, version = js ''1.2.3''\<rparr> \<longrightarrow>
      waitForHealthy ?opts ([?bad] @ ?good # []) = Some (Inr \<lparr>healthy = True, version = js ''1.2.3''\<rparr>)"
    by blast
  then have a: "waitForHealthy ?opts [?bad, ?good] = Some (Inr \<lparr>healthy = True, version = js ''1.2.3''\<rparr>)"
    using bad good opts rd by simp
  from outcome have "[?bad, ?bad] \<noteq> [] \<and> (\<forall>q \<in> set [?bad, ?bad]. \<exists>m. attempt_of q = Failure m) \<and>
      sum_list (map (round_ms (pollMs_of ?opts)) (butlast [?bad, ?bad])) < timeoutMs_of ?opts \<and>
      timeoutMs_of ?opts \<le> sum_list (map (round_ms (pollMs_of ?opts)) [?bad, ?bad]) \<and>
      attempt_of (last [?bad, ?bad]) = Failure (js ''Server reported unhealthy'') \<longrightarrow>
      waitForHealthy ?opts ([?bad, ?bad] @ [?bad, ?good]) = Some (Inl (js ''Server reported unhealthy''))"
    by blast
  then have b: "waitForHealthy ?opts [?bad, ?bad, ?bad, ?good] = Some (Inl (js ''Server reported unhealthy''))"
    using bad opts rd by simp
  from outcome have "[?bad, ?down] \<noteq> [] \<and> (\<forall>q \<in> set [?bad, ?down]. \<exists>m. attempt_of q = Failure m) \<and>
      sum_list (map (round_ms (pollMs_of ?opts)) (butlast [?bad, ?down])) < timeoutMs_of ?opts \<and>
      timeoutMs_of ?opts \<le> sum_list (map (round_ms (pollMs_of ?opts)) [?bad, ?down]) \<and>
      attempt_of (last [?bad, ?down]) = Failure (js ''Failed to fetch'') \<longrightarrow>
      waitForHealthy ?opts ([?bad, ?down] @ []) = Some (Inl (js ''Failed to fetch''))"
    by blast
  then have c: "waitForHealthy ?opts [?bad, ?down] = Some (Inl (js ''Failed to fetch''))"
    using bad down opts rd by simp
  have d: "waitForHealthy ?opts [?bad] = None"
    using bad opts rd by (simp add: waitForHealthy_def)
  have e: "waitForHealthy ?opts [?bad, ?bad] \<noteq> None"
    using outcome [THEN conjunct2, THEN conjunct2, THEN conjunct2, rule_format, of "[?bad, ?bad]"]
      opts
    by simp
  have f: "waitForHealthy (Some \<lparr>timeoutMs = Some 0, pollMs = None\<rparr>) [?good]
      = Some (Inl (js ''Timed out waiting for server health''))"
    using waitForHealthy_outcome [of "Some \<lparr>timeoutMs = Some 0, pollMs = None\<rparr>",
        THEN conjunct2, THEN conjunct2, THEN conjunct1, rule_format, of "[?good]"]
    by (simp add: timeoutMs_of_def)
  from a b c d e f show ?thesis by (simp add: Let_def)
qed

text \<open>
  With a timeout of zero no poll is made, though the server would have answered
  unhealthy, and the probe fails with the generic message.
\<close>

theorem waitForHealthy_generic_message_counterexample:
  "waitForHealthy (Some \<lparr>timeoutMs = Some 0, pollMs = None\<rparr>)
     [\<lparr>health_call = Resolves (Data \<lparr>healthy = False, version = js ''1.2.3''\<rparr>),
       call_ms = 5, late_ms = 0\<rparr>]
   = Some (Inl (js ''Timed out waiting for server health''))"
  by (simp add: waitForHealthy_def timeoutMs_of_def pollMs_of_def)

section \<open>Switching the session while fetches are in flight\<close>

lemma resume_session:
  "resume p s st = (st', Some p') \<Longrightarrow> pending_session p' = pending_session p"
  by (cases "(p, s, st)" rule: resume.cases)
    (auto simp: selectSession_messages_def selectSession_todo_def selectSession_permissions_def
      Let_def split: sum.splits)

lemma resume_selected:
  "selectedSessionId (fst (resume p s st)) = selectedSessionId st"
  by (cases "(p, s, st)" rule: resume.cases)
    (auto simp: selectSession_messages_def selectSession_todo_def selectSession_permissions_def
      refreshPendingPermissions_def rememberSessionModel_def Let_def
      split: sum.splits option.splits)

lemma step_sessions:
  "pending_session ` set (snd (step (st, inflight) a)) \<subseteq>
     pending_session ` set inflight \<union> (case a of SelectSession sid \<Rightarrow> {sid} | Settle k s \<Rightarrow> {})"
proof (cases a)
  case (SelectSession sid)
  then show ?thesis
    by (auto simp: selectSession_start_def split: option.splits)
next
  case (Settle k s)
  show ?thesis
  proof (cases "k < length inflight")
    case False
    with Settle show ?thesis by simp
  next
    case True
    obtain st' nxt where r: "resume (inflight ! k) s st = (st', nxt)"
      by (cases "resume (inflight ! k) s st") auto
    show ?thesis
    proof (cases nxt)
      case None
      with Settle True r show ?thesis
        by (auto dest: in_set_takeD in_set_dropD)
    next
      case (Some p')
      from r Some have "pending_session p' = pending_session (inflight ! k)"
        by (auto dest: resume_session)
      moreover have "inflight ! k \<in> set inflight" using True by simp
      ultimately have "pending_session p' \<in> pending_session ` set inflight" by auto
      moreover have "set (inflight[k := p']) \<subseteq> insert p' (set inflight)"
        by (rule set_update_subset_insert)
      ultimately show ?thesis using Settle True r Some by auto
    qed
  qed
qed

lemma run_sessions:
  "pending_session ` set (snd (run (st, inflight) acts)) \<subseteq>
     pending_session ` set inflight \<union> {sid. SelectSession sid \<in> set acts}"
proof (induction acts rule: rev_induct)
  case Nil
  then show ?case by (simp add: run_def)
next
  case (snoc a acts)
  obtain st' fl where c: "run (st, inflight) acts = (st', fl)"
    by (cases "run (st, inflight) acts") auto
  have "pending_session ` set (snd (step (st', fl) a)) \<subseteq>
      pending_session ` set fl \<union> (case a of SelectSession sid \<Rightarrow> {sid} | Settle k s \<Rightarrow> {})"
    by (rule step_sessions)
  moreover have "pending_session ` set fl \<subseteq>
      pending_session ` set inflight \<union> {sid. SelectSession sid \<in> set acts}"
    using snoc.IH c by simp
  moreover have "run (st, inflight) (acts @ [a]) = step (st', fl) a"
    using c by (simp add: run_def)
  ultimately show ?case by (cases a) auto
qed

text \<open>
  Claim C1, as the code has it. \<open>selectSession\<close> for an id issues the history fetch for
  that id, and each call it waits for belongs to a continuation that carries the id it
  was called with: after any run of selections and settlements, every call in flight
  carries an id that was selected (or was in flight before). But no continuation reads
  the selected session when its call settles: whatever the state then is, the fetched
  history replaces the message list (and the model of its last user message becomes the
  known model of the id the fetch was issued for, whose override is dropped), the
  fetched todo list replaces the todo list (the empty list if the fetch failed), and
  the fetched permissions are reconciled into the pending ones. A settlement never
  changes which session is selected.
\<close>

theorem selectSession_applies_every_result:
  "(\<forall>c. client st = Some c \<longrightarrow>
      selectSession_start sid st =
        (st\<lparr>selectedSessionId := Some sid, error := None\<rparr>, Some (AwaitMessages sid))) \<and>
   (\<forall>msgs.
      snd (resume (AwaitMessages sid) (MessagesSettled (Inr msgs)) st) = Some (AwaitTodo sid) \<and>
      messages (fst (resume (AwaitMessages sid) (MessagesSettled (Inr msgs)) st)) = msgs \<and>
      (\<forall>m. lastUserModelFromMessages msgs = Some m \<longrightarrow>
         sessionModelById (fst (resume (AwaitMessages sid) (MessagesSettled (Inr msgs)) st)) sid
           = Some (Model m) \<and>
         sessionModelOverrideById
           (fst (resume (AwaitMessages sid) (MessagesSettled (Inr msgs)) st)) sid = None)) \<and>
   (\<forall>ts.
      snd (resume (AwaitTodo sid) (TodoSettled (Inr ts)) st) = Some (AwaitPermissions sid) \<and>
      todos (fst (resume (AwaitTodo sid) (TodoSettled (Inr ts)) st)) = ts) \<and>
   (\<forall>e. todos (fst (resume (AwaitTodo sid) (TodoSettled (Inl e)) st)) = []) \<and>
   (\<forall>list now.
      pendingPermissions (fst (resume (AwaitPermissions sid) (PermissionsSettled (Inr list) now) st))
        = reconcilePermissions (pendingPermissions st) list now) \<and>
   (\<forall>p s. selectedSessionId (fst (resume p s st)) = selectedSessionId st) \<and>
   (\<forall>inflight acts.
      pending_session ` set (snd (run (st, inflight) acts)) \<subseteq>
        pending_session ` set inflight \<union> {sid'. SelectSession sid' \<in> set acts})"
proof (intro conjI allI impI)
  fix c assume "client st = Some c"
  then show "selectSession_start sid st =
      (st\<lparr>selectedSessionId := Some sid, error := None\<rparr>, Some (AwaitMessages sid))"
    by (simp add: selectSession_start_def)
next
  fix msgs
  show "snd (resume (AwaitMessages sid) (MessagesSettled (Inr msgs)) st) = Some (AwaitTodo sid)"
    by (simp add: selectSession_messages_def Let_def)
  show "messages (fst (resume (AwaitMessages sid) (MessagesSettled (Inr msgs)) st)) = msgs"
    by (simp add: selectSession_messages_def Let_def rememberSessionModel_def
        split: option.splits)
next
  fix msgs m assume "lastUserModelFromMessages msgs = Some m"
  then show "sessionModelById (fst (resume (AwaitMessages sid) (MessagesSettled (Inr msgs)) st)) sid
      = Some (Model m)"
    by (simp add: selectSession_messages_def Let_def rememberSessionModel_def)
next
  fix msgs m assume "lastUserModelFromMessages msgs = Some m"
  then show "sessionModelOverrideById
      (fst (resume (AwaitMessages sid) (MessagesSettled (Inr msgs)) st)) sid = None"
    by (simp add: selectSession_messages_def Let_def rememberSessionModel_def)
next
  fix ts
  show "snd (resume (AwaitTodo sid) (TodoSettled (Inr ts)) st) = Some (AwaitPermissions sid)"
    by (simp add: selectSession_todo_def)
  show "todos (fst (resume (AwaitTodo sid) (TodoSettled (Inr ts)) st)) = ts"
    by (simp add: selectSession_todo_def)
next
  fix e
  show "todos (fst (resume (AwaitTodo sid) (TodoSettled (Inl e)) st)) = []"
    by (simp add: selectSession_todo_def)
next
  fix list now
  show "pendingPermissions
      (fst (resume (AwaitPermissions sid) (PermissionsSettled (Inr list) now) st))
      = reconcilePermissions (pendingPermissions st) list now"
    by (simp add: selectSession_permissions_def refreshPendingPermissions_def)
next
  fix p s
  show "selectedSessionId (fst (resume p s st)) = selectedSessionId st"
    by (rule resume_selected)
next
  fix inflight acts
  show "pending_session ` set (snd (run (st, inflight) acts)) \<subseteq>
      pending_session ` set inflight \<union> {sid'. SelectSession sid' \<in> set acts}"
    by (rule run_sessions)
qed

theorem selectSession_applies_every_result_witness:
  "(let asked = \<lparr>info = \<lparr>msg_id = js ''m1'', msg_sessionID = js ''s1'', msg_role = User,
                         msg_model = Some (JObj [(js ''providerID'', JStr (js ''google'')),
                                                 (js ''modelID'', JStr (js ''gemini''))])\<rparr>,
                 parts = []\<rparr>;
        st = \<lparr>client = Some (Client (js ''http://127.0.0.1:4096'')), sessions = [],
              selectedSessionId = Some (js ''s2''), messages = [], todos = [],
              pendingPermissions = [], prompt = [], defaultModel = DEFAULT_MODEL,
              sessionModelOverrideById = Map.empty, sessionModelById = Map.empty, error = None\<rparr>
    in selectSession_start (js ''s1'') st =
         (st\<lparr>selectedSessionId := Some (js ''s1''), error := None\<rparr>,
          Some (AwaitMessages (js ''s1''))) \<and>
       messages (fst (resume (AwaitMessages (js ''s1'')) (MessagesSettled (Inr [asked])) st))
         = [asked] \<and>
       sessionModelById
         (fst (resume (AwaitMessages (js ''s1'')) (MessagesSettled (Inr [asked])) st)) (js ''s1'')
         = Some (Model \<lparr>providerID = js ''google'', modelID = js ''gemini''\<rparr>) \<and>
       selectedSessionId
         (fst (resume (AwaitMessages (js ''s1'')) (MessagesSettled (Inr [asked])) st))
         = Some (js ''s2''))"
proof -
  let ?asked = "\<lparr>info = \<lparr>msg_id = js ''m1'', msg_sessionID = js ''s1'', msg_role = User,
                         msg_model = Some (JObj [(js ''providerID'', JStr (js ''google'')),
                                                 (js ''modelID'', JStr (js ''gemini''))])\<rparr>,
                 parts = []\<rparr>"
  let ?st = "\<lparr>client = Some (Client (js ''http://127.0.0.1:4096'')), sessions = [],
              selectedSessionId = Some (js ''s2''), messages = [], todos = [],
              pendingPermissions = [], prompt = [], defaultModel = DEFAULT_MODEL,
              sessionModelOverrideById = Map.empty, sessionModelById = Map.empty, error = None\<rparr>"
  note applied = selectSession_applies_every_result [of ?st "js ''s1''"]
  have last: "lastUserModelFromMessages [?asked] =
      Some \<lparr>providerID = js ''google'', modelID = js ''gemini''\<rparr>"
    by (simp add: lastUserModelFromMessages_def modelFromUserMessage_def js_def)
  have a: "selectSession_start (js ''s1'') ?st =
      (?st\<lparr>selectedSessionId := Some (js ''s1''), error := None\<rparr>,
       Some (AwaitMessages (js ''s1'')))"
    using applied [THEN conjunct1, rule_format, of "Client (js ''http://127.0.0.1:4096'')"]
    by simp
  note history = applied [THEN conjunct2, THEN conjunct1, rule_format, of "[?asked]"]
  have b: "messages (fst (resume (AwaitMessages (js ''s1'')) (MessagesSettled (Inr [?asked])) ?st))
      = [?asked]"
    using history by blast
  have c: "sessionModelById
      (fst (resume (AwaitMessages (js ''s1'')) (MessagesSettled (Inr [?asked])) ?st)) (js ''s1'')
      = Some (Model \<lparr>providerID = js ''google'', modelID = js ''gemini''\<rparr>)"
    using history last by blast
  have d: "selectedSessionId
      (fst (resume (AwaitMessages (js ''s1'')) (MessagesSettled (Inr [?asked])) ?st))
      = Some (js ''s2'')"
    using applied [THEN conjunct2, THEN conjunct2, THEN conjunct2, THEN conjunct2,
        THEN conjunct2, THEN conjunct1, rule_format,
        of "AwaitMessages (js ''s1'')" "MessagesSettled (Inr [?asked])"]
    by simp
  from a b c d show ?thesis by (simp only: Let_def)
qed

text \<open>
  The user selects \<open>s1\<close> and then \<open>s2\<close>; the history of \<open>s2\<close> arrives, and then the
  history of \<open>s1\<close>, fetched for a session that is no longer selected. It is not
  discarded: the message list shown for \<open>s2\<close> is the history of \<open>s1\<close>.
\<close>

theorem selectSession_stale_fetch_counterexample:
  "selectedSessionId
     (fst (run (\<lparr>client = Some (Client (js ''http://127.0.0.1:4096'')), sessions = [],
                 selectedSessionId = None, messages = [], todos = [],
                 pendingPermissions = [], prompt = [], defaultModel = DEFAULT_MODEL,
                 sessionModelOverrideById = Map.empty, sessionModelById = Map.empty,
                 error = None\<rparr>, [])
        [SelectSession (js ''s1''), SelectSession (js ''s2''),
         Settle 1 (MessagesSettled (Inr
           [\<lparr>info = \<lparr>msg_id = js ''m2'', msg_sessionID = js ''s2'', msg_role = Assistant,
                      msg_model = None\<rparr>, parts = []\<rparr>])),
         Settle 0 (MessagesSettled (Inr
           [\<lparr>info = \<lparr>msg_id = js ''m1'', msg_sessionID = js ''s1'', msg_role = Assistant,
                      msg_model = None\<rparr>, parts = []\<rparr>]))]))
     = Some (js ''s2'') \<and>
   messages
     (fst (run (\<lparr>client = Some (Client (js ''http://127.0.0.1:4096'')), sessions = [],
                 selectedSessionId = None, messages = [], todos = [],
                 pendingPermissions = [], prompt = [], defaultModel = DEFAULT_MODEL,
                 sessionModelOverrideById = Map.empty, sessionModelById = Map.empty,
                 error = None\<rparr>, [])
        [SelectSession (js ''s1''), SelectSession (js ''s2''),
         Settle 1 (MessagesSettled (Inr
           [\<lparr>info = \<lparr>msg_id = js ''m2'', msg_sessionID = js ''s2'', msg_role = Assistant,
                      msg_model = None\<rparr>, parts = []\<rparr>])),
         Settle 0 (MessagesSettled (Inr
           [\<lparr>info = \<lparr>msg_id = js ''m1'', msg_sessionID = js ''s1'', msg_role = Assistant,
                      msg_model = None\<rparr>, parts = []\<rparr>]))]))
     = [\<lparr>info = \<lparr>msg_id = js ''m1'', msg_sessionID = js ''s1'', msg_role = Assistant,
                 msg_model = None\<rparr>, parts = []\<rparr>]"
  by (simp add: run_def selectSession_start_def selectSession_messages_def
      lastUserModelFromMessages_def modelFromUserMessage_def Let_def)

section \<open>The live flag of the event subscription\<close>
















lemma app_catch_flag: "sseConnected (app_catch lower cancelled e st) = sseConnected st"
  by (simp add: app_catch_def Let_def)










end
